theory Spec2Isabelle
  imports Main
begin

section \<open>Host-language primitives used by the streaming code\<close>

text \<open>
  The streaming part of \<^verbatim>\<open>kit.js\<close> (\<^verbatim>\<open>connect\<close>, \<^verbatim>\<open>disconnect\<close>, \<^verbatim>\<open>subscribe\<close>,
  \<^verbatim>\<open>unsubscribe\<close>) uses a handful of JavaScript and lodash primitives. They are
  modelled here on byte strings (\<^typ>\<open>string\<close>). The file holds two versions of the class
  \<^verbatim>\<open>HollaExKit\<close>; their streaming methods are the same statement for statement, and the
  constructor below is the one of the first version (the second one also accepts a
  \<^verbatim>\<open>wsURL\<close> option).
\<close>

text \<open>
  The streaming part of \<^verbatim>\<open>kit.js\<close> (\<^verbatim>\<open>connect\<close>, \<^verbatim>\<open>disconnect\<close>, \<^verbatim>\<open>subscribe\<close>,
  \<^verbatim>\<open>unsubscribe\<close>) uses a handful of JavaScript and lodash primitives. They are
  modelled here on byte strings (\<^typ>\<open>string\<close>).
\<close>

text \<open>\<^verbatim>\<open>s.startsWith(p)\<close>, the test behind the substring search.\<close>

fun starts_with :: "string \<Rightarrow> string \<Rightarrow> bool" where
  "starts_with s [] = True"
| "starts_with [] (p # ps) = False"
| "starts_with (c # cs) (p # ps) = (c = p \<and> starts_with cs ps)"

text \<open>\<^verbatim>\<open>s.includes(p)\<close> on strings: \<^verbatim>\<open>p\<close> occurs somewhere in \<^verbatim>\<open>s\<close>.\<close>

fun str_includes :: "string \<Rightarrow> string \<Rightarrow> bool" where
  "str_includes [] p = (p = [])"
| "str_includes (c # cs) p = (starts_with (c # cs) p \<or> str_includes cs p)"

text \<open>
  \<^verbatim>\<open>s.split(sep)\<close> for a non-empty separator: the pieces between the occurrences of
  \<^verbatim>\<open>sep\<close>, scanned from the left. The result always has at least one piece.
\<close>

function split_str :: "string \<Rightarrow> string \<Rightarrow> string list" where
  "split_str sep [] = [[]]"
| "split_str sep (x # xs) =
     (if sep \<noteq> [] \<and> starts_with (x # xs) sep
      then [] # split_str sep (drop (length sep) (x # xs))
      else (case split_str sep xs of
              [] \<Rightarrow> [[x]]
            | s # ss \<Rightarrow> (x # s) # ss))"
  by pat_completeness auto
termination
  by (relation "measure (\<lambda>(sep, s). length s)") auto

text \<open>
  \<^verbatim>\<open>const [a, b] = s.split(sep)\<close>: the first piece, and the second one when there is
  one (\<^verbatim>\<open>undefined\<close> otherwise, here \<^term>\<open>None\<close>).
\<close>

definition destructure2 :: "string \<Rightarrow> string \<Rightarrow> string \<times> string option" where
  "destructure2 sep s =
     (case split_str sep s of
        [] \<Rightarrow> ([], None)
      | [a] \<Rightarrow> (a, None)
      | a # b # _ \<Rightarrow> (a, Some b))"

text \<open>Truthiness of a possibly undefined string: defined and not empty.\<close>

definition truthy :: "string option \<Rightarrow> bool" where
  "truthy v = (case v of None \<Rightarrow> False | Some s \<Rightarrow> s \<noteq> [])"

text \<open>A possibly undefined string inside a template literal.\<close>

definition template :: "string option \<Rightarrow> string" where
  "template v = (case v of None \<Rightarrow> ''undefined'' | Some s \<Rightarrow> s)"

text \<open>
  lodash \<^verbatim>\<open>union(a, b)\<close>: the values of \<^verbatim>\<open>a\<close> then \<^verbatim>\<open>b\<close>, each kept at its first
  occurrence only. \<open>base_uniq\<close> is lodash's loop: a value is pushed onto the result
  unless the result already holds it.
\<close>

fun base_uniq :: "'a list \<Rightarrow> 'a list \<Rightarrow> 'a list" where
  "base_uniq res [] = res"
| "base_uniq res (x # xs) = base_uniq (if x \<in> set res then res else res @ [x]) xs"

definition union_lodash :: "'a list \<Rightarrow> 'a list \<Rightarrow> 'a list" where
  "union_lodash a b = base_uniq [] (a @ b)"

text \<open>
  \<^verbatim>\<open>JSON.stringify\<close> of a string: quoted, with the quote, the backslash and the
  control characters escaped.
\<close>

definition hex_digit :: "nat \<Rightarrow> char" where
  "hex_digit n = ''0123456789abcdef'' ! (n mod 16)"

definition json_escape :: "char \<Rightarrow> string" where
  "json_escape c =
     (if c = CHR 0x22 then [CHR 0x5C, CHR 0x22]
      else if c = CHR 0x5C then [CHR 0x5C, CHR 0x5C]
      else if c = CHR 0x08 then [CHR 0x5C, CHR ''b'']
      else if c = CHR 0x09 then [CHR 0x5C, CHR ''t'']
      else if c = CHR 0x0A then [CHR 0x5C, CHR ''n'']
      else if c = CHR 0x0C then [CHR 0x5C, CHR ''f'']
      else if c = CHR 0x0D then [CHR 0x5C, CHR ''r'']
      else if (of_char c :: nat) < 32
        then [CHR 0x5C, CHR ''u'', CHR ''0'', CHR ''0'',
              hex_digit (of_char c div 16), hex_digit (of_char c)]
      else [c])"

definition json_string :: "string \<Rightarrow> string" where
  "json_string s = CHR 0x22 # concat (map json_escape s) @ [CHR 0x22]"

text \<open>\<^verbatim>\<open>JSON.stringify({ op: o, args: [a] })\<close> and \<^verbatim>\<open>JSON.stringify({ op: 'ping' })\<close>.\<close>

definition json_op :: "string \<Rightarrow> string \<Rightarrow> string" where
  \<open>json_op opn arg = ''{"op":'' @ json_string opn @ '',"args":['' @ json_string arg @ '']}''\<close>

definition json_ping :: string where
  \<open>json_ping = ''{"op":'' @ json_string ''ping'' @ ''}''\<close>

text \<open>A whole number inside a template literal: its decimal digits.\<close>

fun nat_digits :: "nat \<Rightarrow> string" where
  "nat_digits n =
     (if n < 10 then [''0123456789'' ! n]
      else nat_digits (n div 10) @ [''0123456789'' ! (n mod 10)])"

definition int_to_string :: "int \<Rightarrow> string" where
  "int_to_string i = (if i < 0 then CHR ''-'' # nat_digits (nat (- i)) else nat_digits (nat i))"

section \<open>The client object and its surroundings\<close>

text \<open>
  \<^verbatim>\<open>ws.readyState\<close> of the WebSocket library, and the listeners that live in a socket's
  \<^verbatim>\<open>_events\<close> table: the four closures \<^verbatim>\<open>connect\<close> registers, and whatever the caller
  registers with \<^verbatim>\<open>client.ws.on(name, fn)\<close> (identified by a number).
\<close>

datatype ready_state = CONNECTING | OPEN | CLOSING | CLOSED

datatype listener = OnUnexpectedResponse | OnError | OnClose | OnOpen | Caller nat

text \<open>
  A socket holds a reference to its \<^verbatim>\<open>_events\<close> table, not the table: \<^verbatim>\<open>connect\<close> stores
  the table object in \<^verbatim>\<open>wsEventListeners\<close> and installs the same object on the next socket.
\<close>

record socket =
  url :: string
  readyState :: ready_state
  events_ref :: nat

record heartbeat =
  pingMessage :: string
  pingTimeout :: nat
  pingInterval :: nat

text \<open>
  The fields of \<^verbatim>\<open>HollaExKit\<close> that the streaming code reads or writes, followed by the
  world it acts on: the store of \<^verbatim>\<open>_events\<close> tables, the URLs of the sockets created with
  \<^verbatim>\<open>new WebSocket(url)\<close>, the frames passed to \<^verbatim>\<open>ws.send\<close>, the delays of the pending
  \<^verbatim>\<open>setTimeout\<close> callbacks (each of them is \<^verbatim>\<open>() => this.connect(this.wsEvents)\<close>), the calls
  of \<^verbatim>\<open>setWsHeartbeat\<close>, and the events handed to the caller's listeners.
  \<^verbatim>\<open>initialConnection\<close> is not set by the constructor: it is \<^verbatim>\<open>undefined\<close>, which
  the code only tests for truth, hence \<^term>\<open>False\<close>.
\<close>

record kit =
  apiUrl :: string
  baseUrl :: string
  apiKey :: "string option"
  apiSecret :: "string option"
  apiExpiresAfter :: int
  wsUrl :: string
  ws :: "socket option"
  wsEvents :: "string list"
  wsReconnect :: bool
  wsReconnectInterval :: nat
  wsEventListeners :: "nat option"
  initialConnection :: bool
  tables :: "nat \<Rightarrow> (string \<times> listener) list"
  next_ref :: nat
  opened :: "string list"
  sent :: "string list"
  timers :: "nat list"
  heartbeats :: "heartbeat list"
  delivered :: "(nat \<times> string \<times> string) list"

text \<open>
  The two exceptions of the streaming code: \<^verbatim>\<open>new Error('Websocket not connected')\<close>, and
  the \<^verbatim>\<open>TypeError\<close> of reading a property of \<^verbatim>\<open>this.ws\<close> while it is \<^verbatim>\<open>null\<close>. A call
  either returns or throws; both leave a state behind.
\<close>

datatype error = NotConnected | TypeError

datatype outcome = Returned kit | Threw error kit

fun state_of :: "outcome \<Rightarrow> kit" where
  "state_of (Returned k) = k"
| "state_of (Threw e k) = k"

fun returned :: "outcome \<Rightarrow> bool" where
  "returned (Returned k) = True"
| "returned (Threw e k) = False"

subsection \<open>The constructor\<close>

record opts =
  opt_apiURL :: "string option"
  opt_baseURL :: "string option"
  opt_apiKey :: "string option"
  opt_apiSecret :: "string option"
  opt_apiExpiresAfter :: "int option"

text \<open>\<^verbatim>\<open>v || d\<close> on a possibly undefined string, and on a possibly undefined number.\<close>

definition or_string :: "string option \<Rightarrow> string \<Rightarrow> string" where
  "or_string v d = (if truthy v then template v else d)"

definition or_number :: "int option \<Rightarrow> int \<Rightarrow> int" where
  "or_number v d = (case v of None \<Rightarrow> d | Some n \<Rightarrow> if n = 0 then d else n)"

definition default_opts :: opts where
  "default_opts =
     \<lparr>opt_apiURL = Some ''https://api.hollaex.com'', opt_baseURL = Some ''/v2'',
      opt_apiKey = Some [], opt_apiSecret = Some [], opt_apiExpiresAfter = Some 60\<rparr>"

definition new_kit :: "opts \<Rightarrow> kit" where
  "new_kit opts =
     (let api = or_string (opt_apiURL opts) ''https://api.hollaex.com'' in
      case destructure2 ''://'' api of (protocol, endpoint) \<Rightarrow>
        \<lparr>apiUrl = api,
         baseUrl = or_string (opt_baseURL opts) ''/v2'',
         apiKey = opt_apiKey opts,
         apiSecret = opt_apiSecret opts,
         apiExpiresAfter = or_number (opt_apiExpiresAfter opts) 60,
         wsUrl = (if protocol = ''https''
                  then ''wss://'' @ template endpoint @ ''/stream''
                  else ''ws://'' @ template endpoint @ ''/stream''),
         ws = None,
         wsEvents = [],
         wsReconnect = True,
         wsReconnectInterval = 5000,
         wsEventListeners = None,
         initialConnection = False,
         tables = (\<lambda>r. []),
         next_ref = 0,
         opened = [],
         sent = [],
         timers = [],
         heartbeats = [],
         delivered = []\<rparr>)"

text \<open>\<^verbatim>\<open>this.wsConnected = () => this.ws && this.ws.readyState === WebSocket.OPEN\<close>\<close>

definition wsConnected :: "kit \<Rightarrow> bool" where
  "wsConnected k = (case ws k of None \<Rightarrow> False | Some s \<Rightarrow> readyState s = OPEN)"

subsection \<open>The WebSocket library, as far as the client drives it\<close>

text \<open>
  \<^verbatim>\<open>this.ws = new WebSocket(url)\<close>: a socket in state \<^verbatim>\<open>CONNECTING\<close> with a fresh, empty
  \<^verbatim>\<open>_events\<close> table. The URL is taken to be one the library accepts.
\<close>

definition new_WebSocket :: "string \<Rightarrow> kit \<Rightarrow> kit" where
  "new_WebSocket u k =
     k\<lparr>ws := Some \<lparr>url = u, readyState = CONNECTING, events_ref = next_ref k\<rparr>,
       tables := (tables k)(next_ref k := []),
       next_ref := Suc (next_ref k),
       opened := opened k @ [u]\<rparr>"

text \<open>\<^verbatim>\<open>emitter.on(name, l)\<close> appends to the table the emitter refers to.\<close>

definition add_listener :: "nat \<Rightarrow> string \<Rightarrow> listener \<Rightarrow> kit \<Rightarrow> kit" where
  "add_listener r name l k = k\<lparr>tables := (tables k)(r := tables k r @ [(name, l)])\<rparr>"

text \<open>\<^verbatim>\<open>ws.close()\<close> starts the closing handshake; a closed socket stays closed.\<close>

definition ws_close :: "socket \<Rightarrow> socket" where
  "ws_close s = (if readyState s = CLOSED then s else s\<lparr>readyState := CLOSING\<rparr>)"

text \<open>\<^verbatim>\<open>this.ws.send(frame)\<close> on the open socket.\<close>

definition ws_send :: "string \<Rightarrow> kit \<Rightarrow> kit" where
  "ws_send frame k = k\<lparr>sent := sent k @ [frame]\<rparr>"

subsection \<open>subscribe and unsubscribe\<close>

text \<open>The body of \<^verbatim>\<open>each(events, (event) => ...)\<close> in \<^verbatim>\<open>subscribe\<close>.\<close>

definition subscribe_event :: "kit \<Rightarrow> string \<Rightarrow> kit" where
  "subscribe_event k event =
     (if event \<notin> set (wsEvents k) \<or> initialConnection k then
        (case destructure2 '':'' event of (topic, symbol) \<Rightarrow>
           if topic = ''orderbook'' \<or> topic = ''trade'' then
             (if truthy symbol then
                (if topic \<notin> set (wsEvents k) then
                   (let k1 = ws_send (json_op ''subscribe'' (topic @ '':'' @ template symbol)) k
                    in if \<not> initialConnection k1
                       then k1\<lparr>wsEvents := union_lodash (wsEvents k1) [event]\<rparr>
                       else k1)
                 else k)
              else
                (let k1 = ws_send (json_op ''subscribe'' topic) k
                 in if \<not> initialConnection k1
                    then k1\<lparr>wsEvents :=
                           union_lodash (filter (\<lambda>e. \<not> str_includes e (topic @ '':'')) (wsEvents k1))
                             [event]\<rparr>
                    else k1))
           else if topic = ''order'' \<or> topic = ''usertrade'' \<or> topic = ''wallet''
                 \<or> topic = ''deposit'' \<or> topic = ''withdrawal'' \<or> topic = ''admin'' then
             (let k1 = ws_send (json_op ''subscribe'' topic) k
              in if \<not> initialConnection k1
                 then k1\<lparr>wsEvents := union_lodash (wsEvents k1) [event]\<rparr>
                 else k1)
           else k)
      else k)"

definition subscribe :: "kit \<Rightarrow> string list \<Rightarrow> outcome" where
  "subscribe k events =
     (if wsConnected k then Returned (foldl subscribe_event k events)
      else Threw NotConnected k)"

text \<open>
  The body of the loop in \<^verbatim>\<open>unsubscribe\<close>. Its second \<^verbatim>\<open>case\<close> group lists
  \<^verbatim>\<open>order\<close>, \<^verbatim>\<open>wallet\<close>, \<^verbatim>\<open>deposit\<close>, \<^verbatim>\<open>withdrawal\<close> and \<^verbatim>\<open>admin\<close>.
\<close>

definition unsubscribe_event :: "kit \<Rightarrow> string \<Rightarrow> kit" where
  "unsubscribe_event k event =
     (if event \<in> set (wsEvents k) then
        (case destructure2 '':'' event of (topic, symbol) \<Rightarrow>
           if topic = ''orderbook'' \<or> topic = ''trade'' then
             (let k1 = (if truthy symbol
                        then ws_send (json_op ''unsubscribe'' (topic @ '':'' @ template symbol)) k
                        else ws_send (json_op ''unsubscribe'' topic) k)
              in k1\<lparr>wsEvents := filter (\<lambda>e. e \<noteq> event) (wsEvents k1)\<rparr>)
           else if topic = ''order'' \<or> topic = ''wallet'' \<or> topic = ''deposit''
                 \<or> topic = ''withdrawal'' \<or> topic = ''admin'' then
             (let k1 = ws_send (json_op ''unsubscribe'' topic) k
              in k1\<lparr>wsEvents := filter (\<lambda>e. e \<noteq> event) (wsEvents k1)\<rparr>)
           else k)
      else k)"

definition unsubscribe :: "kit \<Rightarrow> string list \<Rightarrow> outcome" where
  "unsubscribe k events =
     (if wsConnected k then Returned (foldl unsubscribe_event k events)
      else Threw NotConnected k)"

subsection \<open>connect and disconnect\<close>

text \<open>
  \<^verbatim>\<open>createSignature\<close> comes from \<^verbatim>\<open>./utils\<close> and the clock from \<^verbatim>\<open>moment().unix()\<close>:
  the signing function is the parameter \<open>sign\<close> (secret, method, path, expiry), the current
  unix time the parameter \<open>now\<close>.
\<close>

type_synonym signer = "string \<Rightarrow> string \<Rightarrow> string \<Rightarrow> int \<Rightarrow> string"

text \<open>
  \<^verbatim>\<open>connect(events)\<close>. \<open>connect_url\<close> is the computation of \<^verbatim>\<open>url\<close> at its start; the
  test \<^verbatim>\<open>this.apiKey && this.apiSecret\<close> holds when both are defined and not empty. When
  \<^verbatim>\<open>wsEventListeners\<close> holds a table, that table is installed on the new socket; otherwise
  the four listeners are registered on the new socket's own table, in the order of the
  source.
\<close>

definition connect_url :: "signer \<Rightarrow> kit \<Rightarrow> int \<Rightarrow> string" where
  "connect_url sign k now =
     (case (apiKey k, apiSecret k) of
        (Some key, Some secret) \<Rightarrow>
          if key \<noteq> [] \<and> secret \<noteq> [] then
            (let apiExpires = now + apiExpiresAfter k;
                 signature = sign secret ''CONNECT'' ''/stream'' apiExpires
             in wsUrl k @ ''?api-key='' @ key
                  @ ''&api-signature='' @ signature
                  @ ''&api-expires='' @ int_to_string apiExpires)
          else wsUrl k
      | _ \<Rightarrow> wsUrl k)"

definition connect :: "signer \<Rightarrow> kit \<Rightarrow> string list \<Rightarrow> int \<Rightarrow> kit" where
  "connect sign k events now =
     (let k1 = k\<lparr>wsReconnect := True, wsEvents := events, initialConnection := True\<rparr>;
          u = connect_url sign k1 now;
          r = next_ref k1;
          k2 = new_WebSocket u k1
      in case wsEventListeners k2 of
           Some saved \<Rightarrow> k2\<lparr>ws := Some \<lparr>url = u, readyState = CONNECTING, events_ref = saved\<rparr>\<rparr>
         | None \<Rightarrow>
             add_listener r ''open'' OnOpen
               (add_listener r ''close'' OnClose
                 (add_listener r ''error'' OnError
                   (add_listener r ''unexpected-response'' OnUnexpectedResponse k2))))"

definition disconnect :: "kit \<Rightarrow> outcome" where
  "disconnect k =
     (if wsConnected k
      then Returned (k\<lparr>wsReconnect := False, ws := map_option ws_close (ws k)\<rparr>)
      else Threw NotConnected k)"

subsection \<open>The listeners registered by connect\<close>

text \<open>
  The \<^verbatim>\<open>unexpected-response\<close> and \<^verbatim>\<open>error\<close> listeners have the same body. Each listener
  reads \<^verbatim>\<open>this.ws\<close> when it runs.
\<close>

definition on_failure :: "kit \<Rightarrow> outcome" where
  "on_failure k =
     (case ws k of
        None \<Rightarrow> Threw TypeError k
      | Some s \<Rightarrow>
          if readyState s \<noteq> CLOSING then
            (if readyState s = OPEN then Returned (k\<lparr>ws := Some (ws_close s)\<rparr>)
             else if wsReconnect k then
               Returned (k\<lparr>wsEventListeners := Some (events_ref s), ws := None,
                           timers := timers k @ [wsReconnectInterval k]\<rparr>)
             else Returned (k\<lparr>wsEventListeners := None, ws := None\<rparr>))
          else Returned k)"

definition on_close :: "kit \<Rightarrow> outcome" where
  "on_close k =
     (if wsReconnect k then
        (case ws k of
           None \<Rightarrow> Threw TypeError k
         | Some s \<Rightarrow>
             Returned (k\<lparr>wsEventListeners := Some (events_ref s), ws := None,
                         timers := timers k @ [wsReconnectInterval k]\<rparr>))
      else Returned (k\<lparr>wsEventListeners := None, ws := None\<rparr>))"

text \<open>
  The \<^verbatim>\<open>open\<close> listener: replay, then \<^verbatim>\<open>initialConnection = false\<close>, then
  \<^verbatim>\<open>setWsHeartbeat(this.ws, JSON.stringify({ op: 'ping' }), { pingTimeout: 60000,
  pingInterval: 25000 })\<close>. The heartbeat library is not part of the repository: its call is
  recorded with its arguments, and it is taken to fail on a \<^verbatim>\<open>null\<close> socket.
\<close>

definition on_open :: "kit \<Rightarrow> outcome" where
  "on_open k =
     (case (if length (wsEvents k) > 0 then subscribe k (wsEvents k) else Returned k) of
        Threw e k' \<Rightarrow> Threw e k'
      | Returned k1 \<Rightarrow>
          (let k2 = k1\<lparr>initialConnection := False\<rparr>
           in case ws k2 of
                None \<Rightarrow> Threw TypeError k2
              | Some s \<Rightarrow>
                  Returned (k2\<lparr>heartbeats := heartbeats k2 @
                    [\<lparr>pingMessage = json_ping, pingTimeout = 60000, pingInterval = 25000\<rparr>]\<rparr>)))"

subsection \<open>Emitting an event on the current socket\<close>

fun run_listener :: "listener \<Rightarrow> string \<Rightarrow> string \<Rightarrow> kit \<Rightarrow> outcome" where
  "run_listener OnUnexpectedResponse name payload k = on_failure k"
| "run_listener OnError name payload k = on_failure k"
| "run_listener OnClose name payload k = on_close k"
| "run_listener OnOpen name payload k = on_open k"
| "run_listener (Caller h) name payload k =
     Returned (k\<lparr>delivered := delivered k @ [(h, name, payload)]\<rparr>)"

text \<open>The listeners run in the order of registration; an exception ends the emission.\<close>

fun run_listeners :: "listener list \<Rightarrow> string \<Rightarrow> string \<Rightarrow> kit \<Rightarrow> outcome" where
  "run_listeners [] name payload k = Returned k"
| "run_listeners (l # ls) name payload k =
     (case run_listener l name payload k of
        Threw e k' \<Rightarrow> Threw e k'
      | Returned k' \<Rightarrow> run_listeners ls name payload k')"

definition listeners_for :: "string \<Rightarrow> (string \<times> listener) list \<Rightarrow> listener list" where
  "listeners_for name tbl = map snd (filter (\<lambda>e. fst e = name) tbl)"

text \<open>
  The socket that emits is the one \<^verbatim>\<open>this.ws\<close> refers to; sockets the client has dropped
  are not followed.
\<close>

definition emit :: "string \<Rightarrow> string \<Rightarrow> kit \<Rightarrow> outcome" where
  "emit name payload k =
     (case ws k of
        None \<Rightarrow> Returned k
      | Some s \<Rightarrow> run_listeners (listeners_for name (tables k (events_ref s))) name payload k)"

subsection \<open>What the caller, the transport and the timers can do\<close>

datatype action =
    Connect "string list" int
  | Disconnect
  | Subscribe "string list"
  | Unsubscribe "string list"
  | On string nat
  | SocketOpen
  | SocketClose
  | SocketError
  | SocketUnexpectedResponse
  | SocketMessage string
  | TimerFire int

text \<open>\<^verbatim>\<open>client.ws.on(name, fn)\<close> by the caller.\<close>

definition caller_on :: "string \<Rightarrow> nat \<Rightarrow> kit \<Rightarrow> outcome" where
  "caller_on name h k =
     (case ws k of
        None \<Rightarrow> Threw TypeError k
      | Some s \<Rightarrow> Returned (add_listener (events_ref s) name (Caller h) k))"

text \<open>
  The transport opens a connecting socket (\<^verbatim>\<open>readyState\<close> becomes \<^verbatim>\<open>OPEN\<close>, then
  \<^verbatim>\<open>open\<close> is emitted) and closes a socket that is not closed yet (\<^verbatim>\<open>CLOSED\<close>, then
  \<^verbatim>\<open>close\<close>).
\<close>

definition socket_open :: "kit \<Rightarrow> outcome" where
  "socket_open k =
     (case ws k of
        None \<Rightarrow> Returned k
      | Some s \<Rightarrow>
          if readyState s = CONNECTING
          then emit ''open'' [] (k\<lparr>ws := Some (s\<lparr>readyState := OPEN\<rparr>)\<rparr>)
          else Returned k)"

definition socket_close :: "kit \<Rightarrow> outcome" where
  "socket_close k =
     (case ws k of
        None \<Rightarrow> Returned k
      | Some s \<Rightarrow>
          if readyState s \<noteq> CLOSED
          then emit ''close'' [] (k\<lparr>ws := Some (s\<lparr>readyState := CLOSED\<rparr>)\<rparr>)
          else Returned k)"

text \<open>A pending reconnect timer fires: \<^verbatim>\<open>this.connect(this.wsEvents)\<close>.\<close>

definition timer_fire :: "signer \<Rightarrow> kit \<Rightarrow> int \<Rightarrow> kit" where
  "timer_fire sign k now =
     (case timers k of
        [] \<Rightarrow> k
      | d # ds \<Rightarrow> connect sign (k\<lparr>timers := ds\<rparr>) (wsEvents k) now)"

fun step :: "signer \<Rightarrow> kit \<Rightarrow> action \<Rightarrow> outcome" where
  "step sign k (Connect events now) = Returned (connect sign k events now)"
| "step sign k Disconnect = disconnect k"
| "step sign k (Subscribe events) = subscribe k events"
| "step sign k (Unsubscribe events) = unsubscribe k events"
| "step sign k (On name h) = caller_on name h k"
| "step sign k SocketOpen = socket_open k"
| "step sign k SocketClose = socket_close k"
| "step sign k SocketError = emit ''error'' [] k"
| "step sign k SocketUnexpectedResponse = emit ''unexpected-response'' [] k"
| "step sign k (SocketMessage payload) = emit ''message'' payload k"
| "step sign k (TimerFire now) = Returned (timer_fire sign k now)"

text \<open>
  A history: the state each action leaves is the state the next one starts from, also when
  the action threw (the caller may catch the exception).
\<close>

fun run :: "signer \<Rightarrow> kit \<Rightarrow> action list \<Rightarrow> kit" where
  "run sign k [] = k"
| "run sign k (a # as) = run sign (state_of (step sign k a)) as"

section \<open>The vocabulary of the specification\<close>

text \<open>
  The specification speaks of topics, of keys \<^verbatim>\<open>topic\<close> and \<^verbatim>\<open>topic:symbol\<close>, and of the
  DesiredSet, which is the field \<^verbatim>\<open>wsEvents\<close>. The topic and the symbol of a key are what
  the code's own \<^verbatim>\<open>event.split(':')\<close> finds.
\<close>

definition topic_of :: "string \<Rightarrow> string" where
  "topic_of event = fst (destructure2 '':'' event)"

definition symbol_of :: "string \<Rightarrow> string option" where
  "symbol_of event = snd (destructure2 '':'' event)"

definition filterable :: "string \<Rightarrow> bool" where
  "filterable t = (t = ''orderbook'' \<or> t = ''trade'')"

definition private_topic :: "string \<Rightarrow> bool" where
  "private_topic t =
     (t = ''order'' \<or> t = ''usertrade'' \<or> t = ''wallet'' \<or> t = ''deposit''
      \<or> t = ''withdrawal'' \<or> t = ''admin'')"

definition known_topic :: "string \<Rightarrow> bool" where
  "known_topic t = (filterable t \<or> private_topic t)"

text \<open>A key is symbol-scoped for a filterable topic when it parses to that topic and a symbol.\<close>

definition scoped_for :: "string \<Rightarrow> string \<Rightarrow> bool" where
  "scoped_for t event = (topic_of event = t \<and> truthy (symbol_of event))"

text \<open>The argument of the wire operation that belongs to a key.\<close>

definition wire_key :: "string \<Rightarrow> string" where
  "wire_key event =
     (if filterable (topic_of event) \<and> truthy (symbol_of event)
      then topic_of event @ '':'' @ template (symbol_of event)
      else topic_of event)"

text \<open>A symbol-scoped key is covered by a set of keys that holds its bare topic.\<close>

definition covered :: "string list \<Rightarrow> string \<Rightarrow> bool" where
  "covered W event =
     (filterable (topic_of event) \<and> truthy (symbol_of event) \<and> topic_of event \<in> set W)"

text \<open>
  The invariant of the DesiredSet: no filterable topic has its bare key together with one of
  its symbol-scoped keys.
\<close>

definition dominance_inv :: "string list \<Rightarrow> bool" where
  "dominance_inv W =
     (\<forall>t \<in> {''orderbook'', ''trade''}. t \<in> set W \<longrightarrow> (\<forall>e \<in> set W. \<not> scoped_for t e))"

text \<open>The actions of a history that are calls of \<^verbatim>\<open>connect\<close>, with their topic lists.\<close>

fun connect_lists :: "action list \<Rightarrow> string list list" where
  "connect_lists [] = []"
| "connect_lists (Connect events now # as) = events # connect_lists as"
| "connect_lists (a # as) = connect_lists as"

text \<open>
  One cycle of transport failure and automatic reconnect: the transport closes the socket,
  the reconnect timer fires (at the given time), the transport opens the new socket.
\<close>

fun reconnect_cycles :: "(nat \<Rightarrow> int) \<Rightarrow> nat \<Rightarrow> action list" where
  "reconnect_cycles now 0 = []"
| "reconnect_cycles now (Suc n) =
     reconnect_cycles now n @ [SocketClose, TimerFire (now n), SocketOpen]"

subsection \<open>Sample clients\<close>

text \<open>
  A signing function for the examples, and the client with default options after
  \<^verbatim>\<open>connect(events)\<close> and the opening of its socket.
\<close>

definition sample_sign :: signer where
  "sample_sign secret method path expires = ''0f1e2d3c''"

text \<open>The listener table \<^verbatim>\<open>connect\<close> builds on a fresh socket.\<close>

definition kit_listeners :: "(string \<times> listener) list" where
  "kit_listeners = [(''unexpected-response'', OnUnexpectedResponse), (''error'', OnError),
     (''close'', OnClose), (''open'', OnOpen)]"

definition opened_kit :: "string list \<Rightarrow> kit" where
  "opened_kit events = run sample_sign (new_kit default_opts) [Connect events 0, SocketOpen]"

text \<open>The opened sample client after its transport closed.\<close>

definition dropped_kit :: "string list \<Rightarrow> kit" where
  "dropped_kit events = run sample_sign (opened_kit events) [SocketClose]"

text \<open>
  A client whose transport closed and whose caller called \<^verbatim>\<open>connect\<close> again before the
  reconnect timer fired: it is connected, and the timer is still pending.
\<close>

definition reconnected_by_caller :: kit where
  "reconnected_by_caller =
     run sample_sign (new_kit default_opts)
       [Connect [''orderbook''] 0, SocketOpen, SocketClose, Connect [''orderbook''] 1, SocketOpen]"

text \<open>
  The state of a client that is connected through its \<open>n\<close>-th reconnect, with the caller's
  listener \<open>h\<close> for \<^verbatim>\<open>message\<close> in the table of the live socket and nothing delivered yet.
\<close>

definition live_with :: "nat \<Rightarrow> string list \<Rightarrow> nat \<Rightarrow> kit \<Rightarrow> bool" where
  "live_with h events n k =
     ((\<exists>u. ws k = Some \<lparr>url = u, readyState = OPEN, events_ref = 0\<rparr>)
      \<and> tables k 0 = kit_listeners @ [(''message'', Caller h)]
      \<and> wsEventListeners k \<in> {None, Some 0}
      \<and> wsReconnect k \<and> timers k = [] \<and> 0 < next_ref k \<and> \<not> initialConnection k
      \<and> wsEvents k = events \<and> delivered k = [] \<and> length (opened k) = Suc n)"

section \<open>Facts about the primitives\<close>

lemma set_base_uniq: "set (base_uniq res xs) = set res \<union> set xs"
  by (induction xs arbitrary: res) auto

lemma set_union_lodash: "set (union_lodash a b) = set a \<union> set b"
  by (simp add: union_lodash_def set_base_uniq)

lemma starts_with_append: "starts_with (p @ s) p"
  by (induction p) auto

lemma str_includes_append: "str_includes (p @ s) p"
proof (cases "p @ s")
  case Nil
  then show ?thesis by simp
next
  case (Cons a list)
  have "starts_with (p @ s) p" by (rule starts_with_append)
  with Cons show ?thesis by simp
qed

lemma split_colon_bare:
  "CHR '':'' \<notin> set t \<Longrightarrow> split_str '':'' t = [t]"
  by (induction t) auto

lemma split_colon_cut:
  "CHR '':'' \<notin> set t \<Longrightarrow> split_str '':'' (t @ CHR '':'' # b) = t # split_str '':'' b"
  by (induction t) auto

lemma split_colon_head:
  "\<exists>rest. split_str '':'' b = takeWhile (\<lambda>c. c \<noteq> CHR '':'') b # rest"
  by (induction b) auto

lemma destructure2_bare_topic:
  "CHR '':'' \<notin> set t \<Longrightarrow> destructure2 '':'' t = (t, None)"
  by (simp add: destructure2_def split_colon_bare)

lemma destructure2_scoped:
  assumes "CHR '':'' \<notin> set t"
  shows "destructure2 '':'' (t @ CHR '':'' # b) = (t, Some (takeWhile (\<lambda>c. c \<noteq> CHR '':'') b))"
proof -
  obtain rest where "split_str '':'' b = takeWhile (\<lambda>c. c \<noteq> CHR '':'') b # rest"
    using split_colon_head by blast
  then show ?thesis
    using assms by (simp add: destructure2_def split_colon_cut)
qed

lemma topic_of_takeWhile: "topic_of e = takeWhile (\<lambda>c. c \<noteq> CHR '':'') e"
proof -
  obtain rest where "split_str '':'' e = takeWhile (\<lambda>c. c \<noteq> CHR '':'') e # rest"
    using split_colon_head by blast
  then show ?thesis
    by (cases rest) (simp_all add: topic_of_def destructure2_def)
qed

lemma known_topic_no_colon: "known_topic t \<Longrightarrow> CHR '':'' \<notin> set t"
  by (auto simp: known_topic_def filterable_def private_topic_def)

lemma topic_prefix_included:
  assumes "topic_of e = t" "e \<noteq> t"
  shows "str_includes e (t @ '':'')"
proof -
  let ?P = "\<lambda>c. c \<noteq> CHR '':''"
  have e: "e = takeWhile ?P e @ dropWhile ?P e" by simp
  have t: "takeWhile ?P e = t" using assms(1) by (simp add: topic_of_takeWhile)
  have "dropWhile ?P e \<noteq> []"
  proof
    assume "dropWhile ?P e = []"
    then have "takeWhile ?P e = e" by (metis append_Nil2 takeWhile_dropWhile_id)
    then show False using t assms(2) by simp
  qed
  then obtain x xs where d: "dropWhile ?P e = x # xs" by (cases "dropWhile ?P e") auto
  then have "\<not> ?P x" using hd_dropWhile [of ?P e] by auto
  then have "e = (t @ '':'') @ xs" using e t d by simp
  then show ?thesis using str_includes_append [of "t @ '':''" xs] by simp
qed

lemma scoped_for_included:
  assumes "scoped_for t e" "CHR '':'' \<notin> set t"
  shows "str_includes e (t @ '':'')"
proof -
  have "e \<noteq> t"
  proof
    assume "e = t"
    then have "symbol_of e = None" using assms(2) by (simp add: symbol_of_def destructure2_bare_topic)
    then show False using assms(1) by (simp add: scoped_for_def truthy_def)
  qed
  moreover have "topic_of e = t" using assms(1) by (simp add: scoped_for_def)
  ultimately show ?thesis by (simp add: topic_prefix_included)
qed

lemma filterable_bare:
  assumes "filterable t"
  shows "topic_of t = t" "symbol_of t = None" "CHR '':'' \<notin> set t"
  using assms by (auto simp: filterable_def topic_of_def symbol_of_def destructure2_bare_topic)

lemma not_filterable_private: "private_topic t \<Longrightarrow> \<not> filterable t"
  by (auto simp: private_topic_def filterable_def)

lemma json_op_topic:
  \<open>known_topic t \<Longrightarrow> json_op opn t = ''{"op":'' @ json_string opn @ '',"args":["'' @ t @ ''"]}''\<close>
  by (auto simp: known_topic_def filterable_def private_topic_def json_op_def json_string_def
      json_escape_def)

lemma json_string_subscribe [simp]:
  \<open>json_string ''subscribe'' = ''"subscribe"''\<close>
  \<open>json_string ''unsubscribe'' = ''"unsubscribe"''\<close>
  by (simp_all add: json_string_def json_escape_def)

lemmas key_defs = known_topic_def filterable_def private_topic_def topic_of_def symbol_of_def
  destructure2_def covered_def wire_key_def scoped_for_def truthy_def template_def

lemmas json_defs = json_op_def json_string_def json_escape_def

section \<open>Facts about the operations\<close>

lemma subscribe_event_replay:
  "initialConnection k \<Longrightarrow>
   subscribe_event k e =
     (if known_topic (topic_of e) \<and> \<not> covered (wsEvents k) e
      then ws_send (json_op ''subscribe'' (wire_key e)) k else k)"
  by (auto simp: subscribe_event_def known_topic_def covered_def wire_key_def topic_of_def
      symbol_of_def filterable_def private_topic_def Let_def ws_send_def split: prod.splits)

lemma foldl_subscribe_replay:
  "initialConnection k \<Longrightarrow>
   foldl subscribe_event k evs =
     k\<lparr>sent := sent k @ map (\<lambda>e. json_op ''subscribe'' (wire_key e))
        (filter (\<lambda>e. known_topic (topic_of e) \<and> \<not> covered (wsEvents k) e) evs)\<rparr>"
proof (induction evs arbitrary: k)
  case Nil
  then show ?case by simp
next
  case (Cons e evs)
  show ?case
  proof (cases "known_topic (topic_of e) \<and> \<not> covered (wsEvents k) e")
    case True
    let ?k1 = "ws_send (json_op ''subscribe'' (wire_key e)) k"
    have i: "initialConnection ?k1" using Cons.prems by (simp add: ws_send_def)
    have "subscribe_event k e = ?k1"
      using True Cons.prems by (simp add: subscribe_event_replay)
    then have "foldl subscribe_event k (e # evs) = foldl subscribe_event ?k1 evs"
      by simp
    also have "\<dots> = ?k1\<lparr>sent := sent ?k1 @ map (\<lambda>e. json_op ''subscribe'' (wire_key e))
        (filter (\<lambda>e. known_topic (topic_of e) \<and> \<not> covered (wsEvents ?k1) e) evs)\<rparr>"
      by (rule Cons.IH [OF i])
    finally show ?thesis using True by (simp add: ws_send_def)
  next
    case False
    have "subscribe_event k e = k"
      using False Cons.prems by (auto simp: subscribe_event_replay)
    then have "foldl subscribe_event k (e # evs) = foldl subscribe_event k evs"
      by simp
    then show ?thesis using False Cons.IH [OF Cons.prems] by auto
  qed
qed

lemma subscribe_event_live:
  assumes "\<not> initialConnection k"
  shows "subscribe_event k e =
    (if e \<in> set (wsEvents k) then k
     else if filterable (topic_of e) then
       (if truthy (symbol_of e) then
          (if topic_of e \<in> set (wsEvents k) then k
           else k\<lparr>sent := sent k @ [json_op ''subscribe'' (wire_key e)],
                  wsEvents := union_lodash (wsEvents k) [e]\<rparr>)
        else k\<lparr>sent := sent k @ [json_op ''subscribe'' (wire_key e)],
               wsEvents := union_lodash (filter (\<lambda>x. \<not> str_includes x (topic_of e @ '':'')) (wsEvents k)) [e]\<rparr>)
     else if private_topic (topic_of e) then
       k\<lparr>sent := sent k @ [json_op ''subscribe'' (wire_key e)],
         wsEvents := union_lodash (wsEvents k) [e]\<rparr>
     else k)"
  using assms
  by (auto simp: subscribe_event_def wire_key_def topic_of_def symbol_of_def filterable_def
      private_topic_def Let_def ws_send_def split: prod.splits)

lemma on_open_replay:
  assumes "wsConnected k" "initialConnection k"
  shows "on_open k = Returned (k\<lparr>sent := sent k @ map (\<lambda>e. json_op ''subscribe'' (wire_key e))
            (filter (\<lambda>e. known_topic (topic_of e) \<and> \<not> covered (wsEvents k) e) (wsEvents k)),
          initialConnection := False,
          heartbeats := heartbeats k @
            [\<lparr>pingMessage = json_ping, pingTimeout = 60000, pingInterval = 25000\<rparr>]\<rparr>)"
proof -
  obtain s where s: "ws k = Some s" using assms(1) by (auto simp: wsConnected_def split: option.splits)
  show ?thesis
  proof (cases "wsEvents k")
    case Nil
    then show ?thesis using s by (simp add: on_open_def)
  next
    case (Cons e es)
    then have "length (wsEvents k) > 0" by simp
    then show ?thesis
      using s assms by (simp add: on_open_def subscribe_def foldl_subscribe_replay del: foldl_Cons)
  qed
qed

lemma connect_url_flags:
  "connect_url sign (k\<lparr>wsReconnect := a, wsEvents := b, initialConnection := c\<rparr>) now =
     connect_url sign k now"
  by (simp add: connect_url_def Let_def split: option.splits)

lemma connect_fresh:
  assumes "wsEventListeners k = None"
  shows "connect sign k evs now =
    k\<lparr>wsReconnect := True, wsEvents := evs, initialConnection := True,
      ws := Some \<lparr>url = connect_url sign k now, readyState = CONNECTING, events_ref = next_ref k\<rparr>,
      tables := (tables k)(next_ref k := kit_listeners),
      next_ref := Suc (next_ref k),
      opened := opened k @ [connect_url sign k now]\<rparr>"
  using assms by (simp add: connect_def new_WebSocket_def add_listener_def kit_listeners_def connect_url_flags Let_def)

lemma connect_saved:
  assumes "wsEventListeners k = Some r"
  shows "connect sign k evs now =
    k\<lparr>wsReconnect := True, wsEvents := evs, initialConnection := True,
      ws := Some \<lparr>url = connect_url sign k now, readyState = CONNECTING, events_ref = r\<rparr>,
      tables := (tables k)(next_ref k := []),
      next_ref := Suc (next_ref k),
      opened := opened k @ [connect_url sign k now]\<rparr>"
  using assms by (simp add: connect_def new_WebSocket_def connect_url_flags Let_def)

lemma new_kit_default:
  "new_kit default_opts =
     \<lparr>apiUrl = ''https://api.hollaex.com'', baseUrl = ''/v2'', apiKey = Some [],
      apiSecret = Some [], apiExpiresAfter = 60, wsUrl = ''wss://api.hollaex.com/stream'',
      ws = None, wsEvents = [], wsReconnect = True, wsReconnectInterval = 5000,
      wsEventListeners = None, initialConnection = False, tables = (\<lambda>r. []), next_ref = 0,
      opened = [], sent = [], timers = [], heartbeats = [], delivered = []\<rparr>"
  by (simp add: new_kit_def default_opts_def or_string_def or_number_def truthy_def
      template_def destructure2_def)

lemma listeners_for_kit [simp]:
  "listeners_for ''open'' kit_listeners = [OnOpen]"
  "listeners_for ''close'' kit_listeners = [OnClose]"
  "listeners_for ''error'' kit_listeners = [OnError]"
  "listeners_for ''unexpected-response'' kit_listeners = [OnUnexpectedResponse]"
  "listeners_for ''message'' kit_listeners = []"
  by (simp_all add: listeners_for_def kit_listeners_def)

lemma socket_open_connecting:
  assumes "ws k = Some s" "readyState s = CONNECTING" "initialConnection k"
    "listeners_for ''open'' (tables k (events_ref s)) = [OnOpen]"
  shows "socket_open k =
    Returned (k\<lparr>ws := Some (s\<lparr>readyState := OPEN\<rparr>),
      sent := sent k @ map (\<lambda>e. json_op ''subscribe'' (wire_key e))
            (filter (\<lambda>e. known_topic (topic_of e) \<and> \<not> covered (wsEvents k) e) (wsEvents k)),
      initialConnection := False,
      heartbeats := heartbeats k @
            [\<lparr>pingMessage = json_ping, pingTimeout = 60000, pingInterval = 25000\<rparr>]\<rparr>)"
proof -
  let ?k1 = "k\<lparr>ws := Some (s\<lparr>readyState := OPEN\<rparr>)\<rparr>"
  have c: "wsConnected ?k1" by (simp add: wsConnected_def)
  have i: "initialConnection ?k1" using assms(3) by simp
  show ?thesis
    using assms by (simp add: socket_open_def emit_def on_open_replay [OF c i])
qed

lemma run_append: "run sign k (as @ bs) = run sign (run sign k as) bs"
  by (induction as arbitrary: k) auto

lemma run_callers:
  "run_listeners (map Caller hs) name payload k =
     Returned (k\<lparr>delivered := delivered k @ map (\<lambda>h. (h, name, payload)) hs\<rparr>)"
  by (induction hs arbitrary: k) auto

lemma socket_close_reconnect:
  assumes "ws k = Some s" "readyState s \<noteq> CLOSED" "wsReconnect k"
    "listeners_for ''close'' (tables k (events_ref s)) = OnClose # map Caller hs"
  shows "socket_close k =
    Returned (k\<lparr>ws := None, wsEventListeners := Some (events_ref s),
                timers := timers k @ [wsReconnectInterval k],
                delivered := delivered k @ map (\<lambda>h. (h, ''close'', [])) hs\<rparr>)"
  using assms by (simp add: socket_close_def emit_def on_close_def run_callers)

lemma socket_close_stopped:
  assumes "ws k = Some s" "readyState s \<noteq> CLOSED" "\<not> wsReconnect k"
    "listeners_for ''close'' (tables k (events_ref s)) = OnClose # map Caller hs"
  shows "socket_close k =
    Returned (k\<lparr>ws := None, wsEventListeners := None,
                delivered := delivered k @ map (\<lambda>h. (h, ''close'', [])) hs\<rparr>)"
  using assms by (simp add: socket_close_def emit_def on_close_def run_callers)

lemma opened_kit_eq:
  "opened_kit evs =
     \<lparr>apiUrl = ''https://api.hollaex.com'', baseUrl = ''/v2'', apiKey = Some [],
      apiSecret = Some [], apiExpiresAfter = 60, wsUrl = ''wss://api.hollaex.com/stream'',
      ws = Some \<lparr>url = ''wss://api.hollaex.com/stream'', readyState = OPEN, events_ref = 0\<rparr>,
      wsEvents = evs, wsReconnect = True, wsReconnectInterval = 5000,
      wsEventListeners = None, initialConnection = False,
      tables = (\<lambda>r. [])(0 := kit_listeners), next_ref = 1,
      opened = [''wss://api.hollaex.com/stream''],
      sent = map (\<lambda>e. json_op ''subscribe'' (wire_key e))
            (filter (\<lambda>e. known_topic (topic_of e) \<and> \<not> covered evs e) evs),
      timers = [],
      heartbeats = [\<lparr>pingMessage = json_ping, pingTimeout = 60000, pingInterval = 25000\<rparr>],
      delivered = []\<rparr>"
proof -
  have k: "connect sample_sign (new_kit default_opts) evs 0 =
     \<lparr>apiUrl = ''https://api.hollaex.com'', baseUrl = ''/v2'', apiKey = Some [],
      apiSecret = Some [], apiExpiresAfter = 60, wsUrl = ''wss://api.hollaex.com/stream'',
      ws = Some \<lparr>url = ''wss://api.hollaex.com/stream'', readyState = CONNECTING, events_ref = 0\<rparr>,
      wsEvents = evs, wsReconnect = True, wsReconnectInterval = 5000,
      wsEventListeners = None, initialConnection = True,
      tables = (\<lambda>r. [])(0 := kit_listeners), next_ref = 1,
      opened = [''wss://api.hollaex.com/stream''], sent = [], timers = [], heartbeats = [],
      delivered = []\<rparr>"
    by (simp add: connect_fresh new_kit_default connect_url_def)
  show ?thesis
    unfolding opened_kit_def run.simps step.simps state_of.simps k
    by (subst socket_open_connecting
          [where s = "\<lparr>url = ''wss://api.hollaex.com/stream'', readyState = CONNECTING, events_ref = 0\<rparr>"])
       simp_all
qed

lemma opened_kit_fields [simp]:
  "ws (opened_kit evs) = Some \<lparr>url = ''wss://api.hollaex.com/stream'', readyState = OPEN, events_ref = 0\<rparr>"
  "wsEvents (opened_kit evs) = evs"
  "initialConnection (opened_kit evs) = False"
  "wsConnected (opened_kit evs)"
  "sent (opened_kit evs) = map (\<lambda>e. json_op ''subscribe'' (wire_key e))
            (filter (\<lambda>e. known_topic (topic_of e) \<and> \<not> covered evs e) evs)"
  by (simp_all add: opened_kit_eq wsConnected_def)

lemma dropped_kit_eq:
  "dropped_kit evs =
     \<lparr>apiUrl = ''https://api.hollaex.com'', baseUrl = ''/v2'', apiKey = Some [],
      apiSecret = Some [], apiExpiresAfter = 60, wsUrl = ''wss://api.hollaex.com/stream'',
      ws = None,
      wsEvents = evs, wsReconnect = True, wsReconnectInterval = 5000,
      wsEventListeners = Some 0, initialConnection = False,
      tables = (\<lambda>r. [])(0 := kit_listeners), next_ref = 1,
      opened = [''wss://api.hollaex.com/stream''],
      sent = map (\<lambda>e. json_op ''subscribe'' (wire_key e))
            (filter (\<lambda>e. known_topic (topic_of e) \<and> \<not> covered evs e) evs),
      timers = [5000],
      heartbeats = [\<lparr>pingMessage = json_ping, pingTimeout = 60000, pingInterval = 25000\<rparr>],
      delivered = []\<rparr>"
  unfolding dropped_kit_def run.simps step.simps opened_kit_eq
  by (subst socket_close_reconnect
        [where s = "\<lparr>url = ''wss://api.hollaex.com/stream'', readyState = OPEN, events_ref = 0\<rparr>"
           and hs = "[]"])
     simp_all

section \<open>subscribe while connected\<close>

text \<open>
  Claim C1, as amended. For a filterable topic \<open>T\<close> (\<^verbatim>\<open>orderbook\<close> or \<^verbatim>\<open>trade\<close>), in a
  connected state that is not replaying: when the bare key \<open>T\<close> is in the DesiredSet, a
  request for \<open>T:symbol\<close> whose symbol is not empty and does not begin with a colon sends
  nothing and changes nothing, and so does a request for \<open>T\<close> itself; when \<open>T\<close> is not in
  the DesiredSet, a request for \<open>T\<close> sends the subscribe frame for \<open>T\<close>, removes every key
  that contains \<open>T:\<close>, adds \<open>T\<close>, and leaves no key \<open>T:s\<close> and exactly \<open>T\<close> among the keys
  whose topic is \<open>T\<close>.
\<close>

theorem bare_key_dominance:
  assumes "T = ''orderbook'' \<or> T = ''trade''" "wsConnected k" "\<not> initialConnection k"
  shows \<open>(T \<in> set (wsEvents k) \<and> smb \<noteq> [] \<and> hd smb \<noteq> CHR '':'' \<longrightarrow>
            subscribe k [T @ '':'' @ smb] = Returned k)
       \<and> (T \<in> set (wsEvents k) \<longrightarrow> subscribe k [T] = Returned k)
       \<and> (T \<notin> set (wsEvents k) \<longrightarrow>
            (\<exists>k'. subscribe k [T] = Returned k'
               \<and> sent k' = sent k @ [''{"op":"subscribe","args":["'' @ T @ ''"]}'']
               \<and> set (wsEvents k') = insert T {e \<in> set (wsEvents k). \<not> str_includes e (T @ '':'')}
               \<and> (\<forall>s. T @ '':'' @ s \<notin> set (wsEvents k'))
               \<and> {e \<in> set (wsEvents k'). topic_of e = T} = {T}))\<close>
proof -
  have f: "filterable T" using assms(1) by (simp add: filterable_def)
  have nc: "CHR '':'' \<notin> set T" using assms(1) by auto
  have tT: "topic_of T = T" "symbol_of T = None"
    using nc by (simp_all add: topic_of_def symbol_of_def destructure2_bare_topic)
  have wT: "wire_key T = T" using tT by (simp add: wire_key_def truthy_def)
  have a: "subscribe k [T @ '':'' @ smb] = Returned k"
    if "T \<in> set (wsEvents k)" "smb \<noteq> []" "hd smb \<noteq> CHR '':''"
  proof -
    have "takeWhile (\<lambda>c. c \<noteq> CHR '':'') smb \<noteq> []"
      using that(2,3) by (cases smb) auto
    then have "topic_of (T @ '':'' @ smb) = T" "truthy (symbol_of (T @ '':'' @ smb))"
      using nc by (simp_all add: topic_of_def symbol_of_def destructure2_scoped truthy_def)
    then show ?thesis
      using assms(2,3) f that(1) by (simp add: subscribe_def subscribe_event_live)
  qed
  have b: "subscribe k [T] = Returned k" if "T \<in> set (wsEvents k)"
    using assms(2,3) that by (simp add: subscribe_def subscribe_event_live)
  have c: "\<exists>k'. subscribe k [T] = Returned k'
               \<and> sent k' = sent k @ [''{\"op\":\"subscribe\",\"args\":[\"'' @ T @ ''\"]}'']
               \<and> set (wsEvents k') = insert T {e \<in> set (wsEvents k). \<not> str_includes e (T @ '':'')}
               \<and> (\<forall>s. T @ '':'' @ s \<notin> set (wsEvents k'))
               \<and> {e \<in> set (wsEvents k'). topic_of e = T} = {T}"
    if n: "T \<notin> set (wsEvents k)"
  proof -
    let ?W = "union_lodash (filter (\<lambda>x. \<not> str_includes x (T @ '':'')) (wsEvents k)) [T]"
    let ?k' = "k\<lparr>sent := sent k @ [json_op ''subscribe'' T], wsEvents := ?W\<rparr>"
    have 1: "subscribe k [T] = Returned ?k'"
      using assms(2,3) n f tT wT by (simp add: subscribe_def subscribe_event_live truthy_def)
    have 2: "sent ?k' = sent k @ [''{\"op\":\"subscribe\",\"args\":[\"'' @ T @ ''\"]}'']"
      using f by (simp add: json_op_topic known_topic_def)
    have 3: "set (wsEvents ?k') = insert T {e \<in> set (wsEvents k). \<not> str_includes e (T @ '':'')}"
      by (auto simp: set_union_lodash)
    have 4: "T @ '':'' @ s \<notin> set (wsEvents ?k')" for s
      using str_includes_append [of "T @ '':''" s] by (simp add: set_union_lodash)
    have 5: "{e \<in> set (wsEvents ?k'). topic_of e = T} = {T}"
      using tT topic_prefix_included by (auto simp: set_union_lodash)
    show ?thesis using 1 2 3 4 5 by blast
  qed
  show ?thesis using a b c by blast
qed

text \<open>
  Claim C1, witness: \<^verbatim>\<open>orderbook:xht-usdt\<close> and \<^verbatim>\<open>orderbook\<close> after \<^verbatim>\<open>connect(['orderbook'])\<close>,
  and \<^verbatim>\<open>trade\<close> after \<^verbatim>\<open>connect(['trade:xht-usdt'])\<close>.
\<close>

theorem bare_key_dominance_witness:
  \<open>subscribe (opened_kit [''orderbook'']) [''orderbook:xht-usdt''] = Returned (opened_kit [''orderbook''])
   \<and> subscribe (opened_kit [''orderbook'']) [''orderbook''] = Returned (opened_kit [''orderbook''])
   \<and> (\<exists>k'. subscribe (opened_kit [''trade:xht-usdt'']) [''trade''] = Returned k'
         \<and> sent k' = sent (opened_kit [''trade:xht-usdt'']) @ [''{"op":"subscribe","args":["trade"]}'']
         \<and> set (wsEvents k') = {''trade''})\<close>
  using bare_key_dominance [of "''orderbook''" "opened_kit [''orderbook'']" "''xht-usdt''"]
    bare_key_dominance [of "''trade''" "opened_kit [''trade:xht-usdt'']" "[]"]
  by (auto simp: key_defs json_defs)

text \<open>
  Claim C1, counterexample to the claim as stated (a request for the bare key sends the
  subscribe frame and leaves \<open>T\<close> as the only key of topic \<open>T\<close>): after
  \<^verbatim>\<open>connect(['orderbook', 'orderbook:xht-usdt'])\<close> the client is connected and not
  replaying, and \<^verbatim>\<open>subscribe(['orderbook'])\<close> returns the state it was given: no frame is
  sent and \<^verbatim>\<open>orderbook:xht-usdt\<close> stays in \<^verbatim>\<open>wsEvents\<close>.
\<close>

theorem bare_request_suppressed:
  "wsConnected (opened_kit [''orderbook'', ''orderbook:xht-usdt''])
   \<and> \<not> initialConnection (opened_kit [''orderbook'', ''orderbook:xht-usdt''])
   \<and> subscribe (opened_kit [''orderbook'', ''orderbook:xht-usdt'']) [''orderbook'']
       = Returned (opened_kit [''orderbook'', ''orderbook:xht-usdt''])
   \<and> ''orderbook:xht-usdt'' \<in> set (wsEvents (opened_kit [''orderbook'', ''orderbook:xht-usdt'']))"
  by (simp add: subscribe_def subscribe_event_live)

section \<open>unsubscribe\<close>

lemma unsubscribe_absent:
  "wsConnected k \<Longrightarrow> x \<notin> set (wsEvents k) \<Longrightarrow> unsubscribe k [x] = Returned k"
  by (simp add: unsubscribe_def unsubscribe_event_def)

lemma unsubscribe_present:
  assumes "wsConnected k" "x \<in> set (wsEvents k)" "known_topic (topic_of x)"
    "topic_of x \<noteq> ''usertrade''"
  shows "unsubscribe k [x] =
    Returned (k\<lparr>sent := sent k @ [json_op ''unsubscribe'' (wire_key x)],
                wsEvents := filter (\<lambda>e. e \<noteq> x) (wsEvents k)\<rparr>)"
  using assms
  by (auto simp: unsubscribe_def unsubscribe_event_def known_topic_def filterable_def
      private_topic_def topic_of_def symbol_of_def wire_key_def ws_send_def Let_def
      split: prod.splits)

text \<open>
  Claim C2 says that \<^verbatim>\<open>unsubscribe\<close> of a key that is in the DesiredSet sends the matching
  wire operation and removes the key, for every valid topic, the private ones included. The
  two lemmas above are that behaviour for every known topic but one. For \<^verbatim>\<open>usertrade\<close>,
  which \<^verbatim>\<open>subscribe\<close> accepts, the code does nothing: after \<^verbatim>\<open>connect(['usertrade'])\<close> and
  the opening of the socket, \<^verbatim>\<open>unsubscribe(['usertrade'])\<close> returns the state it was given,
  with no frame sent and the key still in \<^verbatim>\<open>wsEvents\<close>.
\<close>

theorem unsubscribe_skips_usertrade:
  "''usertrade'' \<in> set (wsEvents (opened_kit [''usertrade'']))
   \<and> wsConnected (opened_kit [''usertrade''])
   \<and> unsubscribe (opened_kit [''usertrade'']) [''usertrade''] = Returned (opened_kit [''usertrade''])"
  by (simp add: unsubscribe_def unsubscribe_event_def destructure2_bare_topic)

section \<open>The connection state as a gate\<close>

text \<open>
  Claim C3, as amended: \<^verbatim>\<open>disconnect\<close>, \<^verbatim>\<open>subscribe\<close> and \<^verbatim>\<open>unsubscribe\<close> return exactly
  when the client holds a socket whose state is \<^verbatim>\<open>OPEN\<close>; in every other state, the
  connecting one included, each of them throws "Websocket not connected" and leaves the whole
  state, hence the DesiredSet, as it was.
\<close>

theorem connection_gating:
  "((\<exists>s. ws k = Some s \<and> readyState s = OPEN) \<longrightarrow>
      returned (disconnect k) \<and> returned (subscribe k events) \<and> returned (unsubscribe k events))
   \<and> (\<not> (\<exists>s. ws k = Some s \<and> readyState s = OPEN) \<longrightarrow>
      disconnect k = Threw NotConnected k \<and> subscribe k events = Threw NotConnected k
      \<and> unsubscribe k events = Threw NotConnected k)"
  by (auto simp: disconnect_def subscribe_def unsubscribe_def wsConnected_def split: option.splits)

text \<open>
  Claim C3, witness: the three calls return on the client opened with \<^verbatim>\<open>['orderbook']\<close>,
  and throw on the client that never connected.
\<close>

theorem connection_gating_witness:
  "returned (disconnect (opened_kit [''orderbook'']))
   \<and> returned (subscribe (opened_kit [''orderbook'']) [''trade''])
   \<and> returned (unsubscribe (opened_kit [''orderbook'']) [''orderbook''])
   \<and> disconnect (new_kit default_opts) = Threw NotConnected (new_kit default_opts)
   \<and> subscribe (new_kit default_opts) [''trade''] = Threw NotConnected (new_kit default_opts)
   \<and> unsubscribe (new_kit default_opts) [''trade''] = Threw NotConnected (new_kit default_opts)"
  using connection_gating [of "opened_kit [''orderbook'']" "[''trade'']"]
    connection_gating [of "opened_kit [''orderbook'']" "[''orderbook'']"]
    connection_gating [of "new_kit default_opts" "[''trade'']"]
  by (simp add: new_kit_default)

text \<open>
  Claim C3, counterexample to the claim as stated (\<^verbatim>\<open>disconnect\<close> succeeds from the
  Connecting state): right after \<^verbatim>\<open>connect([])\<close> the socket is \<^verbatim>\<open>CONNECTING\<close> and
  \<^verbatim>\<open>disconnect\<close> throws.
\<close>

theorem disconnect_while_connecting_throws:
  "map_option readyState (ws (connect sample_sign (new_kit default_opts) [] 0)) = Some CONNECTING
   \<and> disconnect (connect sample_sign (new_kit default_opts) [] 0)
       = Threw NotConnected (connect sample_sign (new_kit default_opts) [] 0)"
  by (simp add: connect_fresh new_kit_default disconnect_def wsConnected_def)

section \<open>disconnect and the reconnect timer\<close>

lemma reconnected_by_caller_eq:
  "reconnected_by_caller =
     \<lparr>apiUrl = ''https://api.hollaex.com'', baseUrl = ''/v2'', apiKey = Some [],
      apiSecret = Some [], apiExpiresAfter = 60, wsUrl = ''wss://api.hollaex.com/stream'',
      ws = Some \<lparr>url = ''wss://api.hollaex.com/stream'', readyState = OPEN, events_ref = 0\<rparr>,
      wsEvents = [''orderbook''], wsReconnect = True, wsReconnectInterval = 5000,
      wsEventListeners = Some 0, initialConnection = False,
      tables = (\<lambda>r. [])(0 := kit_listeners, 1 := []), next_ref = 2,
      opened = [''wss://api.hollaex.com/stream'', ''wss://api.hollaex.com/stream''],
      sent = [json_op ''subscribe'' ''orderbook'', json_op ''subscribe'' ''orderbook''],
      timers = [5000],
      heartbeats = [\<lparr>pingMessage = json_ping, pingTimeout = 60000, pingInterval = 25000\<rparr>,
                    \<lparr>pingMessage = json_ping, pingTimeout = 60000, pingInterval = 25000\<rparr>],
      delivered = []\<rparr>"
proof -
  have h: "reconnected_by_caller =
     state_of (socket_open (connect sample_sign (dropped_kit [''orderbook'']) [''orderbook''] 1))"
    by (simp add: reconnected_by_caller_def dropped_kit_def opened_kit_def)
  have c: "connect sample_sign (dropped_kit [''orderbook'']) [''orderbook''] 1 =
     \<lparr>apiUrl = ''https://api.hollaex.com'', baseUrl = ''/v2'', apiKey = Some [],
      apiSecret = Some [], apiExpiresAfter = 60, wsUrl = ''wss://api.hollaex.com/stream'',
      ws = Some \<lparr>url = ''wss://api.hollaex.com/stream'', readyState = CONNECTING, events_ref = 0\<rparr>,
      wsEvents = [''orderbook''], wsReconnect = True, wsReconnectInterval = 5000,
      wsEventListeners = Some 0, initialConnection = True,
      tables = (\<lambda>r. [])(0 := kit_listeners, 1 := []), next_ref = 2,
      opened = [''wss://api.hollaex.com/stream'', ''wss://api.hollaex.com/stream''],
      sent = [json_op ''subscribe'' ''orderbook''],
      timers = [5000],
      heartbeats = [\<lparr>pingMessage = json_ping, pingTimeout = 60000, pingInterval = 25000\<rparr>],
      delivered = []\<rparr>"
    by (simp add: dropped_kit_eq connect_saved [where r = 0] connect_url_def key_defs)
  show ?thesis
    unfolding h c
    by (subst socket_open_connecting
          [where s = "\<lparr>url = ''wss://api.hollaex.com/stream'', readyState = CONNECTING, events_ref = 0\<rparr>"])
       (simp_all add: key_defs)
qed

text \<open>
  Claim C4 says that after \<^verbatim>\<open>disconnect()\<close> on a connected client no reconnect is ever
  observed, even if a reconnect timer was already scheduled. On the client above, which is
  connected while a timer is pending, \<^verbatim>\<open>disconnect\<close> returns, and once the socket has closed
  the client holds no socket and \<^verbatim>\<open>wsReconnect\<close> is false, with two sockets created so far;
  when the pending timer fires, \<^verbatim>\<open>connect\<close> runs: a third socket is created, in state
  \<^verbatim>\<open>CONNECTING\<close>, and \<^verbatim>\<open>wsReconnect\<close> is true again.
\<close>

theorem stale_timer_reconnects_after_disconnect:
  "wsConnected reconnected_by_caller \<and> timers reconnected_by_caller = [5000]
   \<and> returned (disconnect reconnected_by_caller)
   \<and> ws (run sample_sign reconnected_by_caller [Disconnect, SocketClose]) = None
   \<and> \<not> wsReconnect (run sample_sign reconnected_by_caller [Disconnect, SocketClose])
   \<and> length (opened (run sample_sign reconnected_by_caller [Disconnect, SocketClose])) = 2
   \<and> map_option readyState
         (ws (run sample_sign reconnected_by_caller [Disconnect, SocketClose, TimerFire 5]))
       = Some CONNECTING
   \<and> wsReconnect (run sample_sign reconnected_by_caller [Disconnect, SocketClose, TimerFire 5])
   \<and> length (opened (run sample_sign reconnected_by_caller [Disconnect, SocketClose, TimerFire 5])) = 3"
  by (simp add: reconnected_by_caller_eq wsConnected_def disconnect_def ws_close_def
      socket_close_def emit_def on_close_def timer_fire_def connect_fresh connect_url_def)

text \<open>
  With no timer pending, \<^verbatim>\<open>disconnect\<close> and the close that follows leave no socket and no
  timer, and a timer event changes nothing.
\<close>

lemma disconnect_then_close:
  assumes "ws k = Some s" "readyState s = OPEN" "timers k = []"
    "listeners_for ''close'' (tables k (events_ref s)) = OnClose # map Caller hs"
  shows "run sign k [Disconnect, SocketClose] =
    k\<lparr>wsReconnect := False, ws := None, wsEventListeners := None,
      delivered := delivered k @ map (\<lambda>h. (h, ''close'', [])) hs\<rparr>"
    and "run sign (run sign k [Disconnect, SocketClose]) [TimerFire t] =
      run sign k [Disconnect, SocketClose]"
proof -
  define k1 where "k1 = k\<lparr>wsReconnect := False, ws := Some (s\<lparr>readyState := CLOSING\<rparr>)\<rparr>"
  have d: "disconnect k = Returned k1"
    using assms(1,2) by (simp add: disconnect_def wsConnected_def ws_close_def k1_def)
  have "socket_close k1 = Returned (k1\<lparr>ws := None, wsEventListeners := None,
                delivered := delivered k1 @ map (\<lambda>h. (h, ''close'', [])) hs\<rparr>)"
    by (rule socket_close_stopped [where s = "s\<lparr>readyState := CLOSING\<rparr>"])
       (simp_all add: k1_def assms(4))
  then show 1: "run sign k [Disconnect, SocketClose] =
    k\<lparr>wsReconnect := False, ws := None, wsEventListeners := None,
      delivered := delivered k @ map (\<lambda>h. (h, ''close'', [])) hs\<rparr>"
    by (simp add: d) (simp add: k1_def)
  show "run sign (run sign k [Disconnect, SocketClose]) [TimerFire t] =
      run sign k [Disconnect, SocketClose]"
    unfolding 1 using assms(3) by (simp add: timer_fire_def)
qed

section \<open>The invariant of the DesiredSet\<close>

lemma dominance_inv_iff:
  "dominance_inv W \<longleftrightarrow>
     (\<forall>t e. filterable t \<and> t \<in> set W \<and> e \<in> set W \<longrightarrow> \<not> scoped_for t e)"
  by (auto simp: dominance_inv_def filterable_def)

lemma dominance_inv_subset:
  "dominance_inv W \<Longrightarrow> set W' \<subseteq> set W \<Longrightarrow> dominance_inv W'"
  unfolding dominance_inv_iff by blast

lemma inv_subscribe_event:
  assumes "dominance_inv (wsEvents k)"
  shows "dominance_inv (wsEvents (subscribe_event k e))"
proof (cases "initialConnection k")
  case True
  then show ?thesis using assms by (simp add: subscribe_event_replay ws_send_def)
next
  case False
  note live = subscribe_event_live [OF False, of e]
  let ?W = "wsEvents k"
  have inv: "\<And>t x. filterable t \<Longrightarrow> t \<in> set ?W \<Longrightarrow> x \<in> set ?W \<Longrightarrow> \<not> scoped_for t x"
    using assms unfolding dominance_inv_iff by blast
  have "subscribe_event k e = k
      \<or> (filterable (topic_of e) \<and> truthy (symbol_of e) \<and> topic_of e \<notin> set ?W
          \<and> set (wsEvents (subscribe_event k e)) = insert e (set ?W))
      \<or> (filterable (topic_of e) \<and> \<not> truthy (symbol_of e)
          \<and> set (wsEvents (subscribe_event k e)) =
               insert e {x \<in> set ?W. \<not> str_includes x (topic_of e @ '':'')})
      \<or> (private_topic (topic_of e)
          \<and> set (wsEvents (subscribe_event k e)) = insert e (set ?W))"
    by (simp add: live set_union_lodash)
  then consider (same) "subscribe_event k e = k"
    | (scoped) "filterable (topic_of e)" "truthy (symbol_of e)" "topic_of e \<notin> set ?W"
        "set (wsEvents (subscribe_event k e)) = insert e (set ?W)"
    | (bare) "filterable (topic_of e)" "\<not> truthy (symbol_of e)"
        "set (wsEvents (subscribe_event k e)) =
           insert e {x \<in> set ?W. \<not> str_includes x (topic_of e @ '':'')}"
    | (priv) "private_topic (topic_of e)"
        "set (wsEvents (subscribe_event k e)) = insert e (set ?W)"
    by blast
  then show ?thesis
  proof cases
    case same
    then show ?thesis using assms by simp
  next
    case scoped
    show ?thesis
      unfolding dominance_inv_iff
    proof (intro allI impI notI, elim conjE)
      fix t x
      assume f: "filterable t" and t: "t \<in> set (wsEvents (subscribe_event k e))"
        and x: "x \<in> set (wsEvents (subscribe_event k e))" and s: "scoped_for t x"
      have "t \<noteq> e" using filterable_bare(2) [OF f] scoped(2) by (auto simp: truthy_def)
      then have tW: "t \<in> set ?W" using t scoped(4) by auto
      show False
      proof (cases "x = e")
        case True
        then have "topic_of e = t" using s by (simp add: scoped_for_def)
        then show False using tW scoped(3) by simp
      next
        case False
        then have "x \<in> set ?W" using x scoped(4) by auto
        then show False using inv [OF f tW] s by blast
      qed
    qed
  next
    case bare
    show ?thesis
      unfolding dominance_inv_iff
    proof (intro allI impI notI, elim conjE)
      fix t x
      assume f: "filterable t" and t: "t \<in> set (wsEvents (subscribe_event k e))"
        and x: "x \<in> set (wsEvents (subscribe_event k e))" and s: "scoped_for t x"
      have xe: "x \<noteq> e" using s bare(2) by (auto simp: scoped_for_def)
      then have xW: "x \<in> set ?W" "\<not> str_includes x (topic_of e @ '':'')"
        using x bare(3) by auto
      show False
      proof (cases "t = e")
        case True
        then have "topic_of e = t" using filterable_bare(1) [OF f] by simp
        then have "str_includes x (topic_of e @ '':'')"
          using scoped_for_included [OF s filterable_bare(3) [OF f]] by simp
        then show False using xW(2) by simp
      next
        case False
        then have "t \<in> set ?W" using t bare(3) by auto
        then show False using inv [OF f _ xW(1)] s by blast
      qed
    qed
  next
    case priv
    show ?thesis
      unfolding dominance_inv_iff
    proof (intro allI impI notI, elim conjE)
      fix t x
      assume f: "filterable t" and t: "t \<in> set (wsEvents (subscribe_event k e))"
        and x: "x \<in> set (wsEvents (subscribe_event k e))" and s: "scoped_for t x"
      have "t \<noteq> e"
        using filterable_bare(1) [OF f] f not_filterable_private [OF priv(1)] by auto
      then have tW: "t \<in> set ?W" using t priv(2) by auto
      show False
      proof (cases "x = e")
        case True
        then have "topic_of e = t" using s by (simp add: scoped_for_def)
        then show False using f not_filterable_private [OF priv(1)] by simp
      next
        case False
        then have "x \<in> set ?W" using x priv(2) by auto
        then show False using inv [OF f tW] s by blast
      qed
    qed
  qed
qed

lemma inv_foldl_subscribe:
  "dominance_inv (wsEvents k) \<Longrightarrow> dominance_inv (wsEvents (foldl subscribe_event k evs))"
  by (induction evs arbitrary: k) (simp_all add: inv_subscribe_event)

lemma wsEvents_unsubscribe_event: "set (wsEvents (unsubscribe_event k e)) \<subseteq> set (wsEvents k)"
  by (auto simp: unsubscribe_event_def ws_send_def Let_def split: prod.splits)

lemma inv_foldl_unsubscribe:
  "dominance_inv (wsEvents k) \<Longrightarrow> dominance_inv (wsEvents (foldl unsubscribe_event k evs))"
proof (induction evs arbitrary: k)
  case Nil
  then show ?case by simp
next
  case (Cons e evs)
  have "dominance_inv (wsEvents (unsubscribe_event k e))"
    using Cons.prems wsEvents_unsubscribe_event by (rule dominance_inv_subset)
  then show ?case using Cons.IH by simp
qed

lemma inv_subscribe: "dominance_inv (wsEvents k) \<Longrightarrow> dominance_inv (wsEvents (state_of (subscribe k evs)))"
  by (simp add: subscribe_def inv_foldl_subscribe)

lemma inv_unsubscribe: "dominance_inv (wsEvents k) \<Longrightarrow> dominance_inv (wsEvents (state_of (unsubscribe k evs)))"
  by (simp add: unsubscribe_def inv_foldl_unsubscribe)

lemma wsEvents_connect: "wsEvents (connect sign k evs now) = evs"
  by (cases "wsEventListeners k") (simp_all add: connect_fresh connect_saved)

lemma wsEvents_timer_fire: "wsEvents (timer_fire sign k now) = wsEvents k"
  by (simp add: timer_fire_def wsEvents_connect split: list.splits)

lemma wsEvents_disconnect: "wsEvents (state_of (disconnect k)) = wsEvents k"
  by (simp add: disconnect_def)

lemma wsEvents_on_failure: "wsEvents (state_of (on_failure k)) = wsEvents k"
  by (simp add: on_failure_def split: option.splits)

lemma wsEvents_on_close: "wsEvents (state_of (on_close k)) = wsEvents k"
  by (simp add: on_close_def split: option.splits)

lemma inv_on_open:
  assumes "dominance_inv (wsEvents k)"
  shows "dominance_inv (wsEvents (state_of (on_open k)))"
proof -
  have "dominance_inv (wsEvents (state_of (subscribe k (wsEvents k))))"
    using assms by (rule inv_subscribe)
  then show ?thesis
    using assms by (auto simp: on_open_def Let_def split: outcome.splits option.splits)
qed

lemma inv_run_listener:
  "dominance_inv (wsEvents k) \<Longrightarrow> dominance_inv (wsEvents (state_of (run_listener l name payload k)))"
  by (cases l) (simp_all add: wsEvents_on_failure wsEvents_on_close inv_on_open)

lemma inv_run_listeners:
  "dominance_inv (wsEvents k) \<Longrightarrow> dominance_inv (wsEvents (state_of (run_listeners ls name payload k)))"
proof (induction ls arbitrary: k)
  case Nil
  then show ?case by simp
next
  case (Cons l ls)
  have 1: "dominance_inv (wsEvents (state_of (run_listener l name payload k)))"
    using Cons.prems by (rule inv_run_listener)
  show ?case
  proof (cases "run_listener l name payload k")
    case (Returned k')
    then show ?thesis using 1 Cons.IH by simp
  next
    case (Threw e k')
    then show ?thesis using 1 by simp
  qed
qed

lemma inv_emit:
  "dominance_inv (wsEvents k) \<Longrightarrow> dominance_inv (wsEvents (state_of (emit name payload k)))"
  by (simp add: emit_def inv_run_listeners split: option.splits)

lemma inv_step:
  assumes "dominance_inv (wsEvents k)" "\<forall>events \<in> set (connect_lists [a]). dominance_inv events"
  shows "dominance_inv (wsEvents (state_of (step sign k a)))"
proof (cases a)
  case (Connect events now)
  then show ?thesis using assms(2) by (simp add: wsEvents_connect)
next
  case SocketOpen
  have "dominance_inv (wsEvents (state_of (emit ''open'' [] k')))" if "wsEvents k' = wsEvents k" for k'
    using assms(1) that inv_emit by simp
  then show ?thesis using SocketOpen assms(1) by (simp add: socket_open_def split: option.splits)
next
  case SocketClose
  have "dominance_inv (wsEvents (state_of (emit ''close'' [] k')))" if "wsEvents k' = wsEvents k" for k'
    using assms(1) that inv_emit by simp
  then show ?thesis using SocketClose assms(1) by (simp add: socket_close_def split: option.splits)
qed (use assms(1) in \<open>simp_all add: wsEvents_disconnect inv_subscribe inv_unsubscribe inv_emit
      wsEvents_timer_fire caller_on_def add_listener_def split: option.splits\<close>)

lemma connect_lists_Cons:
  "set (connect_lists (a # as)) = set (connect_lists [a]) \<union> set (connect_lists as)"
  by (cases a) simp_all

lemma inv_run:
  "dominance_inv (wsEvents k) \<Longrightarrow> \<forall>events \<in> set (connect_lists as). dominance_inv events \<Longrightarrow>
   dominance_inv (wsEvents (run sign k as))"
proof (induction as arbitrary: k)
  case Nil
  then show ?case by simp
next
  case (Cons a as)
  have 1: "\<forall>events \<in> set (connect_lists [a]). dominance_inv events"
    and 2: "\<forall>events \<in> set (connect_lists as). dominance_inv events"
    using Cons.prems(2) unfolding connect_lists_Cons [of a as] by blast+
  have "dominance_inv (wsEvents (state_of (step sign k a)))"
    using Cons.prems(1) 1 by (rule inv_step)
  then show ?case using Cons.IH 2 by simp
qed

text \<open>
  Claim C5, as amended. Starting from a new client, after any history of calls
  (\<^verbatim>\<open>connect\<close>, \<^verbatim>\<open>disconnect\<close>, \<^verbatim>\<open>subscribe\<close>, \<^verbatim>\<open>unsubscribe\<close>, listener registration),
  transport events and reconnect timers, \<^verbatim>\<open>wsEvents\<close> never holds a bare filterable key
  together with a symbol-scoped key of the same topic, provided that no topic list handed to
  \<^verbatim>\<open>connect\<close> does: \<^verbatim>\<open>connect\<close> stores its argument as it is.
\<close>

theorem dominance_invariant:
  assumes "\<forall>events \<in> set (connect_lists as). dominance_inv events"
  shows "dominance_inv (wsEvents (run sign (new_kit opts) as))"
proof -
  have "wsEvents (new_kit opts) = []" by (simp add: new_kit_def Let_def split: prod.splits)
  then have "dominance_inv (wsEvents (new_kit opts))" by (simp add: dominance_inv_def)
  then show ?thesis using assms by (rule inv_run)
qed

text \<open>
  Claim C5, witness: a history with a \<^verbatim>\<open>connect\<close>, a bare subscribe over a scoped key, an
  unsubscribe and a reconnect.
\<close>

theorem dominance_invariant_witness:
  "dominance_inv [''orderbook:xht-usdt'', ''trade'']
   \<and> dominance_inv (wsEvents (run sample_sign (new_kit default_opts)
        [Connect [''orderbook:xht-usdt'', ''trade''] 0, SocketOpen,
         Subscribe [''orderbook'', ''trade:btc-usdt''], Unsubscribe [''trade''],
         SocketClose, TimerFire 5, SocketOpen]))"
proof -
  have 1: "dominance_inv [''orderbook:xht-usdt'', ''trade'']"
    by (simp add: dominance_inv_def key_defs)
  then show ?thesis
    using dominance_invariant [of "[Connect [''orderbook:xht-usdt'', ''trade''] 0, SocketOpen,
         Subscribe [''orderbook'', ''trade:btc-usdt''], Unsubscribe [''trade''],
         SocketClose, TimerFire 5, SocketOpen]" sample_sign default_opts]
    by simp
qed

text \<open>
  Claim C5, counterexample to the claim as stated (after any sequence of operations):
  \<^verbatim>\<open>connect(['orderbook', 'orderbook:xht-usdt'])\<close> on a new client leaves both the bare key
  and the symbol-scoped key in \<^verbatim>\<open>wsEvents\<close>.
\<close>

theorem connect_installs_both_keys:
  "''orderbook'' \<in> set (wsEvents (run sample_sign (new_kit default_opts)
        [Connect [''orderbook'', ''orderbook:xht-usdt''] 0]))
   \<and> ''orderbook:xht-usdt'' \<in> set (wsEvents (run sample_sign (new_kit default_opts)
        [Connect [''orderbook'', ''orderbook:xht-usdt''] 0]))
   \<and> scoped_for ''orderbook'' ''orderbook:xht-usdt''
   \<and> \<not> dominance_inv (wsEvents (run sample_sign (new_kit default_opts)
        [Connect [''orderbook'', ''orderbook:xht-usdt''] 0]))"
  by (simp add: wsEvents_connect dominance_inv_def key_defs)

section \<open>The replay when a socket opens\<close>

text \<open>
  Claim C6, as amended. When the \<^verbatim>\<open>open\<close> listener runs on an open socket during the
  initial connection, every key of \<^verbatim>\<open>wsEvents\<close> is processed although it is in \<^verbatim>\<open>wsEvents\<close>;
  a key sends its subscribe frame when its topic is known and it is not a symbol-scoped key
  whose bare topic is in \<^verbatim>\<open>wsEvents\<close> too, and sends nothing otherwise; the frames go out in
  the order of the keys, and \<^verbatim>\<open>wsEvents\<close> is left as it was. This is what happens when the
  socket of \<^verbatim>\<open>connect(events)\<close> opens on a client with no saved listener table, and when the
  socket of an automatic reconnect opens, where the keys are the current \<^verbatim>\<open>wsEvents\<close>.
\<close>

theorem replay_on_open:
  "(wsConnected k \<and> initialConnection k \<longrightarrow>
      (\<exists>k'. on_open k = Returned k' \<and> wsEvents k' = wsEvents k \<and> \<not> initialConnection k'
         \<and> sent k' = sent k @ map (\<lambda>e. json_op ''subscribe'' (wire_key e))
              (filter (\<lambda>e. known_topic (topic_of e) \<and> \<not> covered (wsEvents k) e) (wsEvents k))))
   \<and> (wsEventListeners k = None \<longrightarrow>
      (\<exists>k'. socket_open (connect sign k events now) = Returned k' \<and> wsEvents k' = events
         \<and> sent k' = sent k @ map (\<lambda>e. json_op ''subscribe'' (wire_key e))
              (filter (\<lambda>e. known_topic (topic_of e) \<and> \<not> covered events e) events)))
   \<and> (timers k \<noteq> [] \<and> wsEventListeners k = Some r \<and> r < next_ref k
        \<and> listeners_for ''open'' (tables k r) = [OnOpen] \<longrightarrow>
      (\<exists>k'. socket_open (timer_fire sign k now) = Returned k' \<and> wsEvents k' = wsEvents k
         \<and> sent k' = sent k @ map (\<lambda>e. json_op ''subscribe'' (wire_key e))
              (filter (\<lambda>e. known_topic (topic_of e) \<and> \<not> covered (wsEvents k) e) (wsEvents k))))"
proof (intro conjI impI)
  assume "wsConnected k \<and> initialConnection k"
  then show "\<exists>k'. on_open k = Returned k' \<and> wsEvents k' = wsEvents k \<and> \<not> initialConnection k'
         \<and> sent k' = sent k @ map (\<lambda>e. json_op ''subscribe'' (wire_key e))
              (filter (\<lambda>e. known_topic (topic_of e) \<and> \<not> covered (wsEvents k) e) (wsEvents k))"
    by (simp add: on_open_replay)
next
  assume n: "wsEventListeners k = None"
  let ?s = "\<lparr>url = connect_url sign k now, readyState = CONNECTING, events_ref = next_ref k\<rparr>"
  have "socket_open (connect sign k events now) = Returned ((connect sign k events now)
     \<lparr>ws := Some (?s\<lparr>readyState := OPEN\<rparr>),
      sent := sent (connect sign k events now) @ map (\<lambda>e. json_op ''subscribe'' (wire_key e))
            (filter (\<lambda>e. known_topic (topic_of e) \<and> \<not> covered (wsEvents (connect sign k events now)) e)
               (wsEvents (connect sign k events now))),
      initialConnection := False,
      heartbeats := heartbeats (connect sign k events now) @
            [\<lparr>pingMessage = json_ping, pingTimeout = 60000, pingInterval = 25000\<rparr>]\<rparr>)"
    by (rule socket_open_connecting) (simp_all add: connect_fresh [OF n])
  then show "\<exists>k'. socket_open (connect sign k events now) = Returned k' \<and> wsEvents k' = events
         \<and> sent k' = sent k @ map (\<lambda>e. json_op ''subscribe'' (wire_key e))
              (filter (\<lambda>e. known_topic (topic_of e) \<and> \<not> covered events e) events)"
    by (simp add: connect_fresh [OF n])
next
  assume a: "timers k \<noteq> [] \<and> wsEventListeners k = Some r \<and> r < next_ref k
        \<and> listeners_for ''open'' (tables k r) = [OnOpen]"
  then obtain d ds where t: "timers k = d # ds" by (cases "timers k") auto
  let ?k0 = "k\<lparr>timers := ds\<rparr>"
  let ?c = "connect sign ?k0 (wsEvents k) now"
  have f: "timer_fire sign k now = ?c" by (simp add: timer_fire_def t)
  have sv: "wsEventListeners ?k0 = Some r" using a by simp
  let ?s = "\<lparr>url = connect_url sign ?k0 now, readyState = CONNECTING, events_ref = r\<rparr>"
  have "socket_open ?c = Returned (?c
     \<lparr>ws := Some (?s\<lparr>readyState := OPEN\<rparr>),
      sent := sent ?c @ map (\<lambda>e. json_op ''subscribe'' (wire_key e))
            (filter (\<lambda>e. known_topic (topic_of e) \<and> \<not> covered (wsEvents ?c) e) (wsEvents ?c)),
      initialConnection := False,
      heartbeats := heartbeats ?c @
            [\<lparr>pingMessage = json_ping, pingTimeout = 60000, pingInterval = 25000\<rparr>]\<rparr>)"
    using a by (intro socket_open_connecting) (simp_all add: connect_saved [OF sv])
  then show "\<exists>k'. socket_open (timer_fire sign k now) = Returned k' \<and> wsEvents k' = wsEvents k
         \<and> sent k' = sent k @ map (\<lambda>e. json_op ''subscribe'' (wire_key e))
              (filter (\<lambda>e. known_topic (topic_of e) \<and> \<not> covered (wsEvents k) e) (wsEvents k))"
    by (simp add: f connect_saved [OF sv])
qed

text \<open>
  Claim C6, witness: the replay of \<^verbatim>\<open>['order', 'wallet']\<close> by the listener itself, after
  \<^verbatim>\<open>connect\<close>, and after the reconnect that follows a closed transport.
\<close>

theorem replay_on_open_witness:
  \<open>(\<exists>k'. on_open ((opened_kit [''order'', ''wallet''])\<lparr>initialConnection := True\<rparr>) = Returned k'
       \<and> wsEvents k' = [''order'', ''wallet''] \<and> \<not> initialConnection k'
       \<and> sent k' = [''{"op":"subscribe","args":["order"]}'', ''{"op":"subscribe","args":["wallet"]}'',
                    ''{"op":"subscribe","args":["order"]}'', ''{"op":"subscribe","args":["wallet"]}''])
   \<and> (\<exists>k'. socket_open (connect sample_sign (new_kit default_opts) [''order'', ''wallet''] 0) = Returned k'
       \<and> wsEvents k' = [''order'', ''wallet'']
       \<and> sent k' = [''{"op":"subscribe","args":["order"]}'', ''{"op":"subscribe","args":["wallet"]}''])
   \<and> (\<exists>k'. socket_open (timer_fire sample_sign (dropped_kit [''order'', ''wallet'']) 5) = Returned k'
       \<and> wsEvents k' = [''order'', ''wallet'']
       \<and> sent k' = [''{"op":"subscribe","args":["order"]}'', ''{"op":"subscribe","args":["wallet"]}'',
                    ''{"op":"subscribe","args":["order"]}'', ''{"op":"subscribe","args":["wallet"]}''])\<close>
  using replay_on_open [where k = "(opened_kit [''order'', ''wallet''])\<lparr>initialConnection := True\<rparr>"
      and sign = sample_sign and events = "[]" and now = 0 and r = 0]
    replay_on_open [where k = "new_kit default_opts" and sign = sample_sign
      and events = "[''order'', ''wallet'']" and now = 0 and r = 0]
    replay_on_open [where k = "dropped_kit [''order'', ''wallet'']" and sign = sample_sign
      and events = "[]" and now = 5 and r = 0]
  by (simp add: key_defs json_defs wsConnected_def new_kit_default dropped_kit_eq)

text \<open>
  Claim C6, counterexample to the claim as stated (each key of the replay set produces its
  subscribe frame): the replay of \<^verbatim>\<open>['orderbook', 'orderbook:xht-usdt']\<close> sends one frame,
  the one for \<^verbatim>\<open>orderbook\<close>.
\<close>

theorem covered_key_not_replayed:
  \<open>wsEvents (opened_kit [''orderbook'', ''orderbook:xht-usdt'']) = [''orderbook'', ''orderbook:xht-usdt'']
   \<and> sent (opened_kit [''orderbook'', ''orderbook:xht-usdt''])
       = [''{"op":"subscribe","args":["orderbook"]}'']\<close>
  by (simp add: key_defs json_defs)

section \<open>The caller's listeners across reconnects\<close>

lemma listeners_for_with_caller [simp]:
  "listeners_for ''open'' (kit_listeners @ [(''message'', Caller h)]) = [OnOpen]"
  "listeners_for ''close'' (kit_listeners @ [(''message'', Caller h)]) = [OnClose]"
  "listeners_for ''message'' (kit_listeners @ [(''message'', Caller h)]) = [Caller h]"
  by (simp_all add: listeners_for_def kit_listeners_def)

lemma live_after_connect:
  "live_with h events 0 (run sign (new_kit opts) [Connect events t0, On ''message'' h, SocketOpen])"
proof -
  let ?k0 = "new_kit opts"
  have n: "wsEventListeners ?k0 = None" "next_ref ?k0 = 0" "tables ?k0 = (\<lambda>r. [])"
    "opened ?k0 = []" "timers ?k0 = []" "delivered ?k0 = []"
    by (simp_all add: new_kit_def Let_def split: prod.splits)
  let ?k1 = "connect sign ?k0 events t0"
  let ?s = "\<lparr>url = connect_url sign ?k0 t0, readyState = CONNECTING, events_ref = 0\<rparr>"
  have k1: "ws ?k1 = Some ?s" "tables ?k1 0 = kit_listeners" "wsEventListeners ?k1 = None"
    "wsReconnect ?k1" "timers ?k1 = []" "next_ref ?k1 = 1" "initialConnection ?k1"
    "wsEvents ?k1 = events" "delivered ?k1 = []" "opened ?k1 = [connect_url sign ?k0 t0]"
    by (simp_all add: connect_fresh [OF n(1)] n)
  let ?k2 = "add_listener 0 ''message'' (Caller h) ?k1"
  have s2: "caller_on ''message'' h ?k1 = Returned ?k2"
    by (simp add: caller_on_def k1)
  have k2: "ws ?k2 = Some ?s" "tables ?k2 0 = kit_listeners @ [(''message'', Caller h)]"
    "wsEventListeners ?k2 = None"
    "wsReconnect ?k2" "timers ?k2 = []" "next_ref ?k2 = 1" "initialConnection ?k2"
    "wsEvents ?k2 = events" "delivered ?k2 = []" "opened ?k2 = [connect_url sign ?k0 t0]"
    by (simp_all add: add_listener_def k1)
  have s3: "socket_open ?k2 = Returned (?k2\<lparr>ws := Some (?s\<lparr>readyState := OPEN\<rparr>),
      sent := sent ?k2 @ map (\<lambda>e. json_op ''subscribe'' (wire_key e))
            (filter (\<lambda>e. known_topic (topic_of e) \<and> \<not> covered (wsEvents ?k2) e) (wsEvents ?k2)),
      initialConnection := False,
      heartbeats := heartbeats ?k2 @
            [\<lparr>pingMessage = json_ping, pingTimeout = 60000, pingInterval = 25000\<rparr>]\<rparr>)"
    by (rule socket_open_connecting) (simp_all add: k2)
  show ?thesis
    by (simp add: s2 s3 live_with_def k2)
qed

lemma live_after_cycle:
  assumes "live_with h events n k"
  shows "live_with h events (Suc n) (run sign k [SocketClose, TimerFire t, SocketOpen])"
proof -
  obtain u where w: "ws k = Some \<lparr>url = u, readyState = OPEN, events_ref = 0\<rparr>"
    using assms by (auto simp: live_with_def)
  have a: "tables k 0 = kit_listeners @ [(''message'', Caller h)]" "wsReconnect k" "timers k = []"
    "0 < next_ref k" "\<not> initialConnection k" "wsEvents k = events" "delivered k = []"
    "length (opened k) = Suc n"
    using assms by (simp_all add: live_with_def)
  define k1 where "k1 = k\<lparr>ws := None,
      wsEventListeners := Some (events_ref \<lparr>url = u, readyState = OPEN, events_ref = 0\<rparr>),
      timers := timers k @ [wsReconnectInterval k],
      delivered := delivered k @ map (\<lambda>h. (h, ''close'', [])) []\<rparr>"
  have s1: "socket_close k = Returned k1"
    unfolding k1_def by (rule socket_close_reconnect [OF w]) (simp_all add: a)
  define k1' where "k1' = k1\<lparr>timers := []\<rparr>"
  have sv: "wsEventListeners k1' = Some 0" by (simp add: k1'_def k1_def)
  have f1: "tables k1' 0 = kit_listeners @ [(''message'', Caller h)]" "0 < next_ref k1'"
    "timers k1' = []" "delivered k1' = []" "length (opened k1') = Suc n"
    using a by (simp_all add: k1'_def k1_def)
  define k2 where "k2 = connect sign k1' events t"
  have s2: "timer_fire sign k1 t = k2"
    using a by (simp add: timer_fire_def k2_def k1'_def k1_def)
  define c where "c = \<lparr>url = connect_url sign k1' t, readyState = CONNECTING, events_ref = 0\<rparr>"
  have k2: "ws k2 = Some c" "tables k2 0 = kit_listeners @ [(''message'', Caller h)]"
    "wsEventListeners k2 = Some 0"
    "wsReconnect k2" "timers k2 = []" "0 < next_ref k2" "initialConnection k2"
    "wsEvents k2 = events" "delivered k2 = []" "length (opened k2) = Suc (Suc n)"
    using f1 sv by (simp_all add: k2_def c_def connect_saved [OF sv])
  have c: "readyState c = CONNECTING" "events_ref c = 0" by (simp_all add: c_def)
  have s3: "socket_open k2 = Returned (k2\<lparr>ws := Some (c\<lparr>readyState := OPEN\<rparr>),
      sent := sent k2 @ map (\<lambda>e. json_op ''subscribe'' (wire_key e))
            (filter (\<lambda>e. known_topic (topic_of e) \<and> \<not> covered (wsEvents k2) e) (wsEvents k2)),
      initialConnection := False,
      heartbeats := heartbeats k2 @
            [\<lparr>pingMessage = json_ping, pingTimeout = 60000, pingInterval = 25000\<rparr>]\<rparr>)"
    by (rule socket_open_connecting) (simp_all add: k2 c)
  have "run sign k [SocketClose, TimerFire t, SocketOpen] = state_of (socket_open k2)"
    by (simp add: s1 s2)
  then show ?thesis
    by (simp add: s3 live_with_def k2 c_def)
qed

lemma live_after_cycles:
  "live_with h events n
     (run sign (new_kit opts)
        ([Connect events t0, On ''message'' h, SocketOpen] @ reconnect_cycles now n))"
proof (induction n)
  case 0
  show ?case using live_after_connect [of h events sign opts t0] by simp
next
  case (Suc n)
  have "run sign (new_kit opts)
        ([Connect events t0, On ''message'' h, SocketOpen] @ reconnect_cycles now (Suc n))
      = run sign (run sign (new_kit opts)
        ([Connect events t0, On ''message'' h, SocketOpen] @ reconnect_cycles now n))
          [SocketClose, TimerFire (now n), SocketOpen]"
    by (simp only: reconnect_cycles.simps run_append append_assoc [symmetric])
  then show ?case using live_after_cycle [OF Suc.IH] by simp
qed

lemma live_delivers:
  assumes "live_with h events n k"
  shows "delivered (run sign k [SocketMessage m]) = [(h, ''message'', m)]"
proof -
  obtain u where w: "ws k = Some \<lparr>url = u, readyState = OPEN, events_ref = 0\<rparr>"
    using assms by (auto simp: live_with_def)
  have t: "tables k 0 = kit_listeners @ [(''message'', Caller h)]" "delivered k = []"
    using assms by (simp_all add: live_with_def)
  show ?thesis by (simp add: emit_def w t)
qed

lemma live_installed:
  assumes "live_with h events n k"
  shows "\<exists>s. ws k = Some s \<and> readyState s = OPEN
           \<and> (''message'', Caller h) \<in> set (tables k (events_ref s))"
  using assms by (auto simp: live_with_def)

text \<open>
  Claim C7, as amended. A listener that the caller registers once on \<^verbatim>\<open>client.ws\<close> after
  the first \<^verbatim>\<open>connect\<close> (there is no socket to register on before it) is, after any number
  \<open>n\<close> of cycles of transport close, reconnect timer and open, in the table of the live open
  socket, which is the \<open>n + 1\<close>-th socket created; and a message arriving then is delivered
  to it, with no new registration.
\<close>

theorem handler_survives_reconnects:
  "(\<exists>s. ws (run sign (new_kit opts)
            ([Connect events t0, On ''message'' h, SocketOpen] @ reconnect_cycles now n)) = Some s
        \<and> readyState s = OPEN
        \<and> (''message'', Caller h) \<in> set (tables (run sign (new_kit opts)
            ([Connect events t0, On ''message'' h, SocketOpen] @ reconnect_cycles now n)) (events_ref s)))
   \<and> length (opened (run sign (new_kit opts)
            ([Connect events t0, On ''message'' h, SocketOpen] @ reconnect_cycles now n))) = Suc n
   \<and> delivered (run sign (new_kit opts)
        (([Connect events t0, On ''message'' h, SocketOpen] @ reconnect_cycles now n)
           @ [SocketMessage m]))
       = [(h, ''message'', m)]"
proof -
  define K where "K = run sign (new_kit opts)
            ([Connect events t0, On ''message'' h, SocketOpen] @ reconnect_cycles now n)"
  have l: "live_with h events n K" unfolding K_def by (rule live_after_cycles)
  have 1: "\<exists>s. ws K = Some s \<and> readyState s = OPEN
           \<and> (''message'', Caller h) \<in> set (tables K (events_ref s))"
    using l by (rule live_installed)
  have 2: "length (opened K) = Suc n" using l by (simp add: live_with_def)
  have 3: "delivered (run sign K [SocketMessage m]) = [(h, ''message'', m)]"
    using l by (rule live_delivers)
  have 4: "run sign (new_kit opts)
        (([Connect events t0, On ''message'' h, SocketOpen] @ reconnect_cycles now n)
           @ [SocketMessage m]) = run sign K [SocketMessage m]"
    unfolding K_def by (rule run_append)
  show ?thesis using 1 2 3 unfolding 4 unfolding K_def by blast
qed

text \<open>
  Claim C7, witness: two reconnect cycles after \<^verbatim>\<open>connect(['orderbook'])\<close>, then a message.
\<close>

theorem handler_survives_reconnects_witness:
  "(\<exists>s. ws (run sample_sign (new_kit default_opts)
            ([Connect [''orderbook''] 0, On ''message'' 7, SocketOpen] @ reconnect_cycles (\<lambda>i. 5) 2)) = Some s
        \<and> readyState s = OPEN
        \<and> (''message'', Caller 7) \<in> set (tables (run sample_sign (new_kit default_opts)
            ([Connect [''orderbook''] 0, On ''message'' 7, SocketOpen] @ reconnect_cycles (\<lambda>i. 5) 2)) (events_ref s)))
   \<and> length (opened (run sample_sign (new_kit default_opts)
            ([Connect [''orderbook''] 0, On ''message'' 7, SocketOpen] @ reconnect_cycles (\<lambda>i. 5) 2))) = 3
   \<and> delivered (run sample_sign (new_kit default_opts)
        [Connect [''orderbook''] 0, On ''message'' 7, SocketOpen,
         SocketClose, TimerFire 5, SocketOpen, SocketClose, TimerFire 5, SocketOpen,
         SocketMessage ''tick''])
       = [(7, ''message'', ''tick'')]"
  using handler_survives_reconnects [of sample_sign default_opts "[''orderbook'']" 0 7 "\<lambda>i. 5" 2 "''tick''"]
  by (simp add: numeral_2_eq_2)

text \<open>
  Claim C7, counterexample to the claim as stated (a handler registered before the first
  connect): on a new client \<^verbatim>\<open>client.ws\<close> is \<^verbatim>\<open>null\<close>, the registration throws, and a
  message that arrives after \<^verbatim>\<open>connect\<close> reaches no listener of the caller.
\<close>

theorem handler_before_connect_fails:
  "caller_on ''message'' 7 (new_kit default_opts) = Threw TypeError (new_kit default_opts)
   \<and> delivered (run sample_sign (new_kit default_opts)
        [On ''message'' 7, Connect [''orderbook''] 0, SocketOpen, SocketMessage ''tick'']) = []"
proof -
  have 1: "caller_on ''message'' 7 (new_kit default_opts) = Threw TypeError (new_kit default_opts)"
    by (simp add: caller_on_def new_kit_default)
  have "run sample_sign (new_kit default_opts)
        [On ''message'' 7, Connect [''orderbook''] 0, SocketOpen, SocketMessage ''tick'']
      = run sample_sign (opened_kit [''orderbook'']) [SocketMessage ''tick'']"
    by (simp add: 1 opened_kit_def)
  also have "delivered \<dots> = []"
    by (simp add: emit_def opened_kit_eq)
  finally show ?thesis using 1 by simp
qed

section \<open>The URL of the stream\<close>

text \<open>
  Claim C8: with a non-empty API key and a non-empty API secret, the socket \<^verbatim>\<open>connect\<close>
  creates has the stream URL followed by exactly \<^verbatim>\<open>?api-key=\<close>, \<^verbatim>\<open>&api-signature=\<close> and
  \<^verbatim>\<open>&api-expires=\<close>, where the expiry is the current unix time plus the configured window
  and the signature is the signing function applied to the secret, \<^verbatim>\<open>CONNECT\<close>, \<^verbatim>\<open>/stream\<close>
  and the expiry; when either credential is missing or empty the URL is the bare stream URL.
  The window is 60 when the options give none.
\<close>

theorem connect_url_construction:
  "(apiKey k = Some key \<and> key \<noteq> [] \<and> apiSecret k = Some secret \<and> secret \<noteq> [] \<longrightarrow>
      map_option url (ws (connect sign k events now)) =
        Some (wsUrl k @ ''?api-key='' @ key
              @ ''&api-signature='' @ sign secret ''CONNECT'' ''/stream'' (now + apiExpiresAfter k)
              @ ''&api-expires='' @ int_to_string (now + apiExpiresAfter k)))
   \<and> (apiKey k = None \<or> apiKey k = Some [] \<or> apiSecret k = None \<or> apiSecret k = Some [] \<longrightarrow>
      map_option url (ws (connect sign k events now)) = Some (wsUrl k))
   \<and> opened (connect sign k events now) = opened k @ [connect_url sign k now]
   \<and> map_option url (ws (connect sign k events now)) = Some (connect_url sign k now)
   \<and> (opt_apiExpiresAfter opts = None \<longrightarrow> apiExpiresAfter (new_kit opts) = 60)"
  by (cases "wsEventListeners k")
     (auto simp: connect_fresh connect_saved connect_url_def Let_def
       new_kit_def or_number_def split: prod.splits option.splits)

text \<open>
  Claim C8, witness: the URL for the key \<^verbatim>\<open>KEY\<close> and the secret \<^verbatim>\<open>SECRET\<close> at time
  1700000000, the URL without credentials, and the default window.
\<close>

theorem connect_url_construction_witness:
  "map_option url (ws (connect sample_sign
      ((new_kit default_opts)\<lparr>apiKey := Some ''KEY'', apiSecret := Some ''SECRET''\<rparr>)
      [''order''] 1700000000))
     = Some ''wss://api.hollaex.com/stream?api-key=KEY&api-signature=0f1e2d3c&api-expires=1700000060''
   \<and> map_option url (ws (connect sample_sign (new_kit default_opts) [''orderbook''] 1700000000))
     = Some ''wss://api.hollaex.com/stream''
   \<and> apiExpiresAfter (new_kit (default_opts\<lparr>opt_apiExpiresAfter := None\<rparr>)) = 60"
  using connect_url_construction [of "(new_kit default_opts)\<lparr>apiKey := Some ''KEY'', apiSecret := Some ''SECRET''\<rparr>"
      "''KEY''" "''SECRET''" sample_sign "[''order'']" 1700000000 "default_opts\<lparr>opt_apiExpiresAfter := None\<rparr>"]
    connect_url_construction [of "new_kit default_opts" "[]" "[]" sample_sign "[''orderbook'']" 1700000000 default_opts]
  by (simp add: new_kit_default sample_sign_def int_to_string_def)

section \<open>The heartbeat\<close>

text \<open>
  The \<^verbatim>\<open>open\<close> listener hands the heartbeat library the ping frame and the two periods, in
  milliseconds. What the library does with them in time is outside this model.
\<close>

lemma heartbeat_on_open:
  assumes "wsConnected k" "initialConnection k"
  shows \<open>heartbeats (state_of (on_open k)) =
      heartbeats k @ [\<lparr>pingMessage = ''{"op":"ping"}'', pingTimeout = 60000, pingInterval = 25000\<rparr>]\<close>
  using assms by (simp add: on_open_replay json_ping_def json_defs)

section \<open>Private topics with a suffix\<close>

text \<open>
  Claim C10, as amended. For a private topic \<open>T\<close> and a key \<open>T:suffix\<close> that is not in the
  DesiredSet, in a connected state that is not replaying: \<^verbatim>\<open>subscribe\<close> sends the subscribe
  frame for \<open>T\<close> alone and adds the whole key \<open>T:suffix\<close>; it does not add \<open>T\<close>. So, when
  \<open>T\<close> was not in the DesiredSet before, a following \<^verbatim>\<open>subscribe([T])\<close> sends a second
  subscribe frame for \<open>T\<close>; when \<open>T\<close> was already there, the following request is
  suppressed.
\<close>

theorem private_suffix_subscription:
  assumes "private_topic T" "wsConnected k" "\<not> initialConnection k"
    "T @ '':'' @ suffix \<notin> set (wsEvents k)"
  shows \<open>\<exists>k1. subscribe k [T @ '':'' @ suffix] = Returned k1
     \<and> sent k1 = sent k @ [''{"op":"subscribe","args":["'' @ T @ ''"]}'']
     \<and> set (wsEvents k1) = insert (T @ '':'' @ suffix) (set (wsEvents k))
     \<and> (T \<in> set (wsEvents k1) \<longleftrightarrow> T \<in> set (wsEvents k))
     \<and> (T \<notin> set (wsEvents k) \<longrightarrow>
          (\<exists>k2. subscribe k1 [T] = Returned k2
             \<and> sent k2 = sent k1 @ [''{"op":"subscribe","args":["'' @ T @ ''"]}'']))
     \<and> (T \<in> set (wsEvents k) \<longrightarrow> subscribe k1 [T] = Returned k1)\<close>
proof -
  let ?e = "T @ '':'' @ suffix"
  let ?frame = \<open>''{"op":"subscribe","args":["'' @ T @ ''"]}''\<close>
  have kn: "known_topic T" using assms(1) by (simp add: known_topic_def)
  have nc: "CHR '':'' \<notin> set T" using kn by (rule known_topic_no_colon)
  have nf: "\<not> filterable T" using assms(1) by (auto simp: private_topic_def filterable_def)
  have te: "topic_of ?e = T" using nc by (simp add: topic_of_def destructure2_scoped)
  have tT: "topic_of T = T" using nc by (simp add: topic_of_def destructure2_bare_topic)
  have we: "wire_key ?e = T" using te nf by (simp add: wire_key_def)
  have wT: "wire_key T = T" using tT nf by (simp add: wire_key_def)
  have fr: "json_op ''subscribe'' T = ?frame" using kn by (simp add: json_op_topic)
  let ?k1 = "k\<lparr>sent := sent k @ [?frame], wsEvents := union_lodash (wsEvents k) [?e]\<rparr>"
  have 1: "subscribe k [?e] = Returned ?k1"
    using assms te we nf fr by (simp add: subscribe_def subscribe_event_live)
  have c1: "wsConnected ?k1" "\<not> initialConnection ?k1"
    using assms(2,3) by (simp_all add: wsConnected_def)
  have ne: "?e \<noteq> T" by simp
  have 3: "set (wsEvents ?k1) = insert ?e (set (wsEvents k))" by (simp add: set_union_lodash)
  have 4: "T \<in> set (wsEvents ?k1) \<longleftrightarrow> T \<in> set (wsEvents k)" using ne by (simp add: set_union_lodash)
  have 5: "\<exists>k2. subscribe ?k1 [T] = Returned k2 \<and> sent k2 = sent ?k1 @ [?frame]"
    if "T \<notin> set (wsEvents k)"
  proof -
    have "T \<notin> set (wsEvents ?k1)" using that 4 by blast
    then show ?thesis
      using c1 tT wT nf assms(1) fr by (simp add: subscribe_def subscribe_event_live)
  qed
  have 6: "subscribe ?k1 [T] = Returned ?k1" if "T \<in> set (wsEvents k)"
  proof -
    have "T \<in> set (wsEvents ?k1)" using that 4 by blast
    then show ?thesis using c1 by (simp add: subscribe_def subscribe_event_live)
  qed
  have 2: "sent ?k1 = sent k @ [?frame]" by simp
  show ?thesis using 1 2 3 4 5 6 by blast
qed

text \<open>
  Claim C10, witness: \<^verbatim>\<open>order:xht-usdt\<close> and then \<^verbatim>\<open>order\<close>, after \<^verbatim>\<open>connect(['wallet'])\<close>
  and after \<^verbatim>\<open>connect(['order'])\<close>.
\<close>

theorem private_suffix_subscription_witness:
  \<open>(\<exists>k1. subscribe (opened_kit [''wallet'']) [''order:xht-usdt''] = Returned k1
     \<and> sent k1 = sent (opened_kit [''wallet'']) @ [''{"op":"subscribe","args":["order"]}'']
     \<and> set (wsEvents k1) = {''order:xht-usdt'', ''wallet''}
     \<and> ''order'' \<notin> set (wsEvents k1)
     \<and> (\<exists>k2. subscribe k1 [''order''] = Returned k2
           \<and> sent k2 = sent k1 @ [''{"op":"subscribe","args":["order"]}'']))
   \<and> (\<exists>k1. subscribe (opened_kit [''order'']) [''order:xht-usdt''] = Returned k1
     \<and> sent k1 = sent (opened_kit [''order'']) @ [''{"op":"subscribe","args":["order"]}'']
     \<and> set (wsEvents k1) = {''order:xht-usdt'', ''order''}
     \<and> subscribe k1 [''order''] = Returned k1)\<close>
  using private_suffix_subscription [of "''order''" "opened_kit [''wallet'']" "''xht-usdt''"]
    private_suffix_subscription [of "''order''" "opened_kit [''order'']" "''xht-usdt''"]
  by (auto simp: key_defs json_defs)

text \<open>
  Claim C10, counterexample to the claim as stated (the later \<^verbatim>\<open>subscribe([T])\<close> is never
  suppressed): after \<^verbatim>\<open>connect(['order'])\<close> and \<^verbatim>\<open>subscribe(['order:xht-usdt'])\<close>, the call
  \<^verbatim>\<open>subscribe(['order'])\<close> returns the state it was given, with no frame sent.
\<close>

theorem later_bare_subscribe_suppressed:
  "''order:xht-usdt'' \<notin> set (wsEvents (opened_kit [''order'']))
   \<and> wsConnected (opened_kit [''order'']) \<and> \<not> initialConnection (opened_kit [''order''])
   \<and> subscribe (state_of (subscribe (opened_kit [''order'']) [''order:xht-usdt''])) [''order'']
       = Returned (state_of (subscribe (opened_kit [''order'']) [''order:xht-usdt'']))"
  by (simp add: subscribe_def subscribe_event_live wsConnected_def set_union_lodash
      topic_of_def destructure2_def filterable_def private_topic_def)

end
